theory Spec2Isabelle
  imports Complex_Main
begin

section \<open>Data model\<close>

text \<open>
  The development follows \<^verbatim>\<open>train.py\<close>.  A Python exception is a value of type
  \<open>error\<close>, and a function that may raise returns \<open>error + 'a\<close> with \<open>Inl\<close> for the
  exception.
\<close>

datatype error =
    ValueError          \<comment> \<open>\<^verbatim>\<open>max(())\<close> on an empty \<^verbatim>\<open>topk\<close>\<close>
  | RuntimeError        \<comment> \<open>raised by a tensor operation on a bad shape or index\<close>
  | ZeroDivisionError   \<comment> \<open>\<^verbatim>\<open>100.0 / batch_size\<close> with \<^verbatim>\<open>batch_size == 0\<close>\<close>
  | UnboundLocalError   \<comment> \<open>\<^verbatim>\<open>i_batch\<close> read after a loop that never ran\<close>

text \<open>
  A two-dimensional tensor of scores: one row per sample, one column per class.  The
  number of columns is part of the shape, so that a tensor with no rows still has one.
  Scores are only compared with each other, so they are real numbers.
\<close>

record tensor2 =
  ncols :: nat
  rows :: "real list list"

definition wf_tensor :: "tensor2 \<Rightarrow> bool" where
  "wf_tensor t = list_all (\<lambda>r. length r = ncols t) (rows t)"

section \<open>Floating-point numbers\<close>

text \<open>
  Losses and percentages are floating-point numbers: a finite value, an infinity or NaN
  (the sign of zero is not modelled).  The tensors of \<^verbatim>\<open>train.py\<close> hold 32-bit
  numbers and a Python \<^verbatim>\<open>float\<close> is a 64-bit number; an operation returns the value
  of the format that is nearest to the exact result, the one with the even significand
  when two are equally near, and an infinity when that value is too large.
\<close>

datatype fp = Finite real | PInf | NInf | NaN

record format =
  prec :: nat
  emin :: int
  emax :: int

definition binary32 :: format where
  "binary32 = \<lparr>prec = 24, emin = - 126, emax = 127\<rparr>"

definition binary64 :: format where
  "binary64 = \<lparr>prec = 53, emin = - 1022, emax = 1023\<rparr>"

text \<open>The formats the lemmas below are about.\<close>

definition wf_format :: "format \<Rightarrow> bool" where
  "wf_format f = (emin f < 0 \<and> 0 \<le> emax f \<and> 0 < prec f)"

text \<open>\<open>pow2 e\<close> is \<open>2\<^sup>e\<close> for an integer \<open>e\<close>.\<close>

definition pow2 :: "int \<Rightarrow> real" where
  "pow2 e = (if 0 \<le> e then 2 ^ nat e else 1 / 2 ^ nat (- e))"

text \<open>Rounding to the nearest integer, to the even one from half-way.\<close>

definition rne :: "real \<Rightarrow> int" where
  "rne x =
     (let f = \<lfloor>x\<rfloor>; d = x - of_int f
      in if d < 1 / 2 then f else if 1 / 2 < d then f + 1 else if even f then f else f + 1)"

text \<open>
  The exponent \<open>e\<close> of a magnitude \<open>x\<close>, with \<open>2\<^sup>e \<le> x < 2\<^sup>e\<^sup>+\<^sup>1\<close>, is searched upwards
  from 0 when \<open>1 \<le> x\<close> and downwards from \<open>-1\<close> otherwise, and is kept between the
  format's smallest and largest exponent.
\<close>

fun search_up :: "nat \<Rightarrow> nat \<Rightarrow> real \<Rightarrow> nat" where
  "search_up fuel e x =
     (if fuel = 0 \<or> x < 2 ^ Suc e then e else search_up (fuel - 1) (Suc e) x)"

fun search_down :: "nat \<Rightarrow> nat \<Rightarrow> real \<Rightarrow> nat" where
  "search_down fuel k x =
     (if fuel = 0 \<or> 1 \<le> x * 2 ^ k then k else search_down (fuel - 1) (Suc k) x)"


definition exponent :: "format \<Rightarrow> real \<Rightarrow> int" where
  "exponent f x =
     (if 1 \<le> x then int (search_up (nat (emax f)) 0 x)
      else - int (search_down (nat (- emin f) - 1) 1 x))"

text \<open>
  The nearest value of the format to a magnitude: a whole multiple of the spacing
  \<open>2\<^sup>e\<^sup>-\<^sup>p\<^sup>+\<^sup>1\<close> of the values with exponent \<open>e\<close>.
\<close>

definition round_mag :: "format \<Rightarrow> real \<Rightarrow> real" where
  "round_mag f x =
     (let q = pow2 (exponent f x - int (prec f) + 1) in of_int (rne (x / q)) * q)"

definition fround :: "format \<Rightarrow> real \<Rightarrow> fp" where
  "fround f x =
     (let m = round_mag f \<bar>x\<bar>
      in if pow2 (emax f + 1) \<le> m then (if x < 0 then NInf else PInf)
         else Finite (if x < 0 then - m else m))"


text \<open>
  Conversion to a format and the arithmetic of the IEEE standard: the exact result is
  rounded; NaN and the infinities follow the standard's rules.
\<close>

fun fp_cast :: "format \<Rightarrow> fp \<Rightarrow> fp" where
  "fp_cast f (Finite x) = fround f x"
| "fp_cast f v = v"

fun fp_add :: "format \<Rightarrow> fp \<Rightarrow> fp \<Rightarrow> fp" where
  "fp_add f NaN b = NaN"
| "fp_add f a NaN = NaN"
| "fp_add f PInf NInf = NaN"
| "fp_add f NInf PInf = NaN"
| "fp_add f PInf b = PInf"
| "fp_add f NInf b = NInf"
| "fp_add f a PInf = PInf"
| "fp_add f a NInf = NInf"
| "fp_add f (Finite x) (Finite y) = fround f (x + y)"

fun fp_mul :: "format \<Rightarrow> fp \<Rightarrow> fp \<Rightarrow> fp" where
  "fp_mul f NaN b = NaN"
| "fp_mul f a NaN = NaN"
| "fp_mul f (Finite x) (Finite y) = fround f (x * y)"
| "fp_mul f (Finite x) PInf = (if x = 0 then NaN else if x < 0 then NInf else PInf)"
| "fp_mul f (Finite x) NInf = (if x = 0 then NaN else if x < 0 then PInf else NInf)"
| "fp_mul f PInf (Finite y) = (if y = 0 then NaN else if y < 0 then NInf else PInf)"
| "fp_mul f NInf (Finite y) = (if y = 0 then NaN else if y < 0 then PInf else NInf)"
| "fp_mul f PInf PInf = PInf"
| "fp_mul f PInf NInf = NInf"
| "fp_mul f NInf PInf = NInf"
| "fp_mul f NInf NInf = PInf"

fun fp_div :: "format \<Rightarrow> fp \<Rightarrow> fp \<Rightarrow> fp" where
  "fp_div f NaN b = NaN"
| "fp_div f a NaN = NaN"
| "fp_div f (Finite x) (Finite y) =
     (if y = 0 then (if x = 0 then NaN else if x < 0 then NInf else PInf)
      else fround f (x / y))"
| "fp_div f (Finite x) b = Finite 0"
| "fp_div f PInf (Finite y) = (if y < 0 then NInf else PInf)"
| "fp_div f NInf (Finite y) = (if y < 0 then PInf else NInf)"
| "fp_div f a b = NaN"

text \<open>The comparison \<^verbatim>\<open><=\<close>: false as soon as one side is NaN.\<close>

fun fp_le :: "fp \<Rightarrow> fp \<Rightarrow> bool" where
  "fp_le NaN b = False"
| "fp_le a NaN = False"
| "fp_le NInf b = True"
| "fp_le a PInf = True"
| "fp_le PInf b = False"
| "fp_le a NInf = False"
| "fp_le (Finite x) (Finite y) = (x \<le> y)"

section \<open>Top-k accuracy\<close>

text \<open>Python's \<^verbatim>\<open>xs[:k]\<close>: a negative \<open>k\<close> counts from the end.\<close>

definition py_slice_to :: "int \<Rightarrow> 'a list \<Rightarrow> 'a list" where
  "py_slice_to k xs =
     (if k < 0 then take (nat (int (length xs) + k)) xs else take (nat k) xs)"

text \<open>
  \<^verbatim>\<open>target.view(1, -1).expand_as(pred)\<close>: the labels as one row, repeated for every
  rank.  The row must have one label per sample, or a single label that is broadcast.
\<close>

definition expand_target :: "nat list \<Rightarrow> nat \<Rightarrow> error + nat list" where
  "expand_target target n =
     (if length target = n then Inr target
      else if length target = 1 then Inr (replicate n (hd target))
      else Inl RuntimeError)"

definition count_true :: "bool list \<Rightarrow> nat" where
  "count_true bs = length (filter (\<lambda>b. b) bs)"

text \<open>
  \<^verbatim>\<open>accuracy(output, target, topk)\<close>.  The library call
  \<^verbatim>\<open>output.topk(maxk, 1, True, True)\<close> returns, for every row, the indices of the
  \<open>maxk\<close> largest scores in descending order of score; which of several equal scores
  comes first is the library's choice, so the call is the parameter \<open>tk\<close> of the model
  (\<open>tk k r\<close> are the indices for the row \<open>r\<close>).  The count of correct predictions is a
  sum of 32-bit zeros and ones, which is exact below \<open>2\<^sup>2\<^sup>4\<close>; beyond that the model takes
  the nearest 32-bit number.  \<^verbatim>\<open>100.0 / batch_size\<close> is a division of Python floats,
  and its result is converted to 32 bits for the multiplication.
\<close>

definition accuracy ::
  "(nat \<Rightarrow> real list \<Rightarrow> nat list) \<Rightarrow> tensor2 \<Rightarrow> nat list \<Rightarrow> int list \<Rightarrow> error + fp list" where
  "accuracy tk output target topk =
     (if topk = [] then Inl ValueError
      else
        let maxk = Max (set topk);
            batch_size = length target
        in
        if maxk < 0 \<or> int (ncols output) < maxk then Inl RuntimeError
        else
          let pred = map (tk (nat maxk)) (rows output);
              pred_t = map (\<lambda>j. map (\<lambda>p. p ! j) pred) [0..<nat maxk]
          in
          case expand_target target (length (rows output)) of
            Inl e \<Rightarrow> Inl e
          | Inr tgt \<Rightarrow>
              let correct = map (\<lambda>row. map2 (=) row tgt) pred_t in
              if batch_size = 0 then Inl ZeroDivisionError
              else
                Inr (map (\<lambda>k.
                       let correct_k =
                             fround binary32 (real (count_true (concat (py_slice_to k correct))));
                           scalar = fp_div binary64 (Finite 100) (fround binary64 (real batch_size))
                       in fp_mul binary32 correct_k (fp_cast binary32 scalar)) topk))"

section \<open>The library objects\<close>

text \<open>
  The model, the loss function, the optimizer and the plateau scheduler are objects of the
  torch library or are built outside \<^verbatim>\<open>train.py\<close>; the functions of
  \<^verbatim>\<open>train.py\<close> only call them.  They are parameters of the model: \<open>'p\<close> is
  the type of the model's parameters, \<open>'x\<close> of an input batch, \<open>'g\<close> of the gradients
  stored with the parameters, \<open>'o\<close> of the optimizer's state and \<open>'s\<close> of the
  scheduler's state.  The forward pass is a function of the mode flag, the parameters and
  the input.  A loss is a floating-point number and may be NaN.
\<close>

record ('p, 'x, 'g, 'o, 's) torch =
  forward :: "bool \<Rightarrow> 'p \<Rightarrow> 'x \<Rightarrow> tensor2"
    \<comment> \<open>\<^verbatim>\<open>model(x)\<close> with the mode flag \<^verbatim>\<open>model.training\<close>\<close>
  tensor_topk :: "nat \<Rightarrow> real list \<Rightarrow> nat list"
    \<comment> \<open>\<^verbatim>\<open>topk\<close> of the tensor library, for one row\<close>
  loss_fn :: "tensor2 \<Rightarrow> nat list \<Rightarrow> fp"
    \<comment> \<open>\<^verbatim>\<open>loss_fn(y_pred, y)\<close>\<close>
  zero_grad :: "'g \<Rightarrow> 'g"
    \<comment> \<open>\<^verbatim>\<open>model_optimizer.zero_grad()\<close>\<close>
  backward :: "real \<Rightarrow> 'p \<Rightarrow> 'x \<Rightarrow> nat list \<Rightarrow> 'g \<Rightarrow> 'g"
    \<comment> \<open>\<^verbatim>\<open>(scale * loss_batch).backward()\<close>: accumulates into the stored gradients\<close>
  unscale :: "real \<Rightarrow> 'g \<Rightarrow> 'g"
    \<comment> \<open>division of the stored gradients by the scale factor\<close>
  all_finite :: "'g \<Rightarrow> bool"
    \<comment> \<open>no stored gradient is infinite or NaN\<close>
  opt_step :: "'o \<Rightarrow> 'g \<Rightarrow> 'p \<Rightarrow> 'p \<times> 'o"
    \<comment> \<open>\<^verbatim>\<open>optimizer.step()\<close>\<close>
  new_optimizer :: 'o
    \<comment> \<open>the state of \<^verbatim>\<open>optim.SGD(...)\<close> when it is built\<close>
  new_scheduler :: 's
    \<comment> \<open>the state of \<^verbatim>\<open>ReduceLROnPlateau(model_optimizer, "min")\<close> when it is built\<close>
  sched_step :: "fp \<Rightarrow> 's \<Rightarrow> 'o \<Rightarrow> 's \<times> 'o"
    \<comment> \<open>\<^verbatim>\<open>model_scheduler.step(val_loss)\<close>: may lower the optimizer's learning rate\<close>

text \<open>Lines written to standard output.\<close>

datatype message =
    EpochHeader nat int   \<comment> \<open>\<^verbatim>\<open>"\nEpoch {}/{}".format(epoch + 1, args.epochs)\<close>\<close>
  | Dashes                \<comment> \<open>\<^verbatim>\<open>"-" * 10\<close>\<close>
  | EarlyStopping         \<comment> \<open>\<^verbatim>\<open>"early stopping"\<close>\<close>
  | ErrorModelMode        \<comment> \<open>\<^verbatim>\<open>"error model mode!"\<close>\<close>

text \<open>
  What \<^verbatim>\<open>pass_epoch\<close> can change: the model (parameters, stored gradients, mode
  flag), the optimizer, the gradient scaler (scale factor and the count of steps without
  overflow) and standard output.
\<close>

record ('p, 'g, 'o) pstate =
  params :: 'p
  grads :: 'g
  training :: bool
  opt_state :: 'o
  scale :: real
  growth_tracker :: nat
  printed :: "message list"

text \<open>
  \<^verbatim>\<open>torch.cuda.amp.GradScaler\<close> is library code.  Its model follows section 4.2 of
  the specification: \<^verbatim>\<open>step\<close> divides the gradients by the scale factor and calls the
  optimizer only if all of them are finite; \<^verbatim>\<open>update\<close> halves the scale factor after
  an overflow and doubles it after 2000 consecutive steps without one (the defaults of
  \<^verbatim>\<open>GradScaler()\<close>).
\<close>

definition optimizer_step ::
  "('p, 'x, 'g, 'o, 's) torch \<Rightarrow> ('p, 'g, 'o) pstate \<Rightarrow> ('p, 'g, 'o) pstate" where
  "optimizer_step ops s =
     (let (p, o') = opt_step ops (opt_state s) (grads s) (params s)
      in s\<lparr>params := p, opt_state := o'\<rparr>)"

definition scaler_step ::
  "('p, 'x, 'g, 'o, 's) torch \<Rightarrow> ('p, 'g, 'o) pstate \<Rightarrow> ('p, 'g, 'o) pstate \<times> bool" where
  "scaler_step ops s =
     (let s1 = s\<lparr>grads := unscale ops (scale s) (grads s)\<rparr>
      in if all_finite ops (grads s1) then (optimizer_step ops s1, False) else (s1, True))"

definition scaler_update :: "bool \<Rightarrow> ('p, 'g, 'o) pstate \<Rightarrow> ('p, 'g, 'o) pstate" where
  "scaler_update found_inf s =
     (if found_inf then s\<lparr>scale := scale s * (1 / 2), growth_tracker := 0\<rparr>
      else if growth_tracker s + 1 = 2000 then s\<lparr>scale := scale s * 2, growth_tracker := 0\<rparr>
      else s\<lparr>growth_tracker := growth_tracker s + 1\<rparr>)"

section \<open>One pass over a loader\<close>

text \<open>
  The body of the loop of \<^verbatim>\<open>pass_epoch\<close> for one batch \<open>(x, y)\<close>.  It returns the new
  state with the batch's loss, top-1 and top-5 accuracy.  The mode is the Python string
  the caller passes.
\<close>

definition batch_step ::
  "('p, 'x, 'g, 'o, 's) torch \<Rightarrow> string \<Rightarrow> ('p, 'g, 'o) pstate \<Rightarrow> 'x \<times> nat list
     \<Rightarrow> error + (('p, 'g, 'o) pstate \<times> fp \<times> fp \<times> fp)" where
  "batch_step ops mode s image_batch =
     (let x = fst image_batch;
          y = snd image_batch;
          s1 = (if mode = ''Train'' then s\<lparr>training := True\<rparr>
                else if mode = ''Eval'' then s\<lparr>training := False\<rparr>
                else s\<lparr>printed := printed s @ [ErrorModelMode]\<rparr>);
          y_pred = forward ops (training s1) (params s1) x;
          loss_batch = loss_fn ops y_pred y
      in case accuracy (tensor_topk ops) y_pred y [1, 5] of
           Inl e \<Rightarrow> Inl e
         | Inr loss_batch_acc_top \<Rightarrow>
             let s2 = (if mode = ''Train'' then
                         let z = s1\<lparr>grads := zero_grad ops (grads s1)\<rparr>;
                             b = z\<lparr>grads := backward ops (scale z) (params z) x y (grads z)\<rparr>;
                             (st, found_inf) = scaler_step ops b;
                             u = scaler_update found_inf st
                         in optimizer_step ops u
                       else s1)
             in Inr (s2, loss_batch, loss_batch_acc_top ! 0, loss_batch_acc_top ! 1))"

text \<open>
  The running sums of \<^verbatim>\<open>pass_epoch\<close> and its loop variable \<^verbatim>\<open>i_batch\<close>, which has
  no value before the first iteration.  The sums are 32-bit tensors from the first
  addition on, and the final division is the division of a 32-bit tensor by the count as
  the CPU device performs it.
\<close>

record totals =
  loss :: fp
  acc_top1 :: fp
  acc_top5 :: fp
  i_batch :: "nat option"

fun pass_loop ::
  "('p, 'x, 'g, 'o, 's) torch \<Rightarrow> string \<Rightarrow> (nat \<times> 'x \<times> nat list) list
     \<Rightarrow> ('p, 'g, 'o) pstate \<Rightarrow> totals \<Rightarrow> error + (('p, 'g, 'o) pstate \<times> totals)" where
  "pass_loop ops mode [] s a = Inr (s, a)"
| "pass_loop ops mode ((i, image_batch) # rest) s a =
     (case batch_step ops mode s image_batch of
        Inl e \<Rightarrow> Inl e
      | Inr (s', loss_batch, top1, top5) \<Rightarrow>
          pass_loop ops mode rest s'
            \<lparr>loss = fp_add binary32 (loss a) loss_batch,
             acc_top1 = fp_add binary32 (acc_top1 a) top1,
             acc_top5 = fp_add binary32 (acc_top5 a) top5, i_batch = Some i\<rparr>)"

type_synonym metrics = "fp \<times> fp \<times> fp"

definition pass_epoch ::
  "('p, 'x, 'g, 'o, 's) torch \<Rightarrow> string \<Rightarrow> ('p, 'g, 'o) pstate \<Rightarrow> ('x \<times> nat list) list
     \<Rightarrow> error + (metrics \<times> ('p, 'g, 'o) pstate)" where
  "pass_epoch ops mode s loader =
     (case pass_loop ops mode (enumerate 0 loader) s
             \<lparr>loss = Finite 0, acc_top1 = Finite 0, acc_top5 = Finite 0, i_batch = None\<rparr> of
        Inl e \<Rightarrow> Inl e
      | Inr (s', a) \<Rightarrow>
          (case i_batch a of
             None \<Rightarrow> Inl UnboundLocalError
           | Some i \<Rightarrow>
               let n = fround binary32 (real (i + 1))
               in Inr ((fp_div binary32 (loss a) n, fp_div binary32 (acc_top1 a) n,
                        fp_div binary32 (acc_top5 a) n), s')))"

section \<open>The training loop\<close>

text \<open>
  The files \<^verbatim>\<open>train\<close> writes with \<^verbatim>\<open>torch.save\<close>:
  \<^verbatim>\<open>checkpoint.pth.tar\<close> and \<^verbatim>\<open>checkpoint_{:04d}.pth.tar\<close>.
\<close>

datatype checkpoint = Latest | Numbered nat

text \<open>
  The state of \<^verbatim>\<open>train\<close>: the objects \<^verbatim>\<open>pass_epoch\<close> works on, the scheduler,
  the counter \<^verbatim>\<open>stop\<close>, \<^verbatim>\<open>min_val_loss\<close>, the calls of \<^verbatim>\<open>torch.save\<close>
  in order (file and the parameters written), and the scalars given to the writer (epoch,
  training metrics, validation metrics).  The history lists hold the same metrics and
  only feed the plots; they are left out.
\<close>

record ('p, 'g, 'o, 's) tstate =
  run :: "('p, 'g, 'o) pstate"
  sched :: 's
  stop :: nat
  min_val_loss :: fp
  saved :: "(checkpoint \<times> 'p) list"
  scalars :: "(nat \<times> metrics \<times> metrics) list"

text \<open>
  One iteration of the loop of \<^verbatim>\<open>train\<close>.  The loaders shuffle, so a loader is a
  function from the epoch to the batches it yields in that epoch.  The result is the new
  state and whether the loop breaks; an exception leaves with the files written so far.
  The assignment \<^verbatim>\<open>val_loss = min_val_loss\<close> rebinds the local name
  \<^verbatim>\<open>val_loss\<close>, which is not read again: \<^verbatim>\<open>min_val_loss\<close> and \<^verbatim>\<open>stop\<close> keep
  their values in that branch.
\<close>

definition train_epoch ::
  "('p, 'x, 'g, 'o, 's) torch \<Rightarrow> int \<Rightarrow> (nat \<Rightarrow> ('x \<times> nat list) list)
     \<Rightarrow> (nat \<Rightarrow> ('x \<times> nat list) list) \<Rightarrow> nat \<Rightarrow> ('p, 'g, 'o, 's) tstate
     \<Rightarrow> (error \<times> (checkpoint \<times> 'p) list) + (('p, 'g, 'o, 's) tstate \<times> bool)" where
  "train_epoch ops epochs train_loader val_loader epoch s =
     (let r0 = (run s)\<lparr>printed := printed (run s) @ [EpochHeader (epoch + 1) epochs, Dashes]\<rparr>
      in case pass_epoch ops ''Train'' r0 (train_loader epoch) of
           Inl e \<Rightarrow> Inl (e, saved s)
         | Inr (train_metrics, r1) \<Rightarrow>
             (case pass_epoch ops ''Eval'' r1 (val_loader epoch) of
                Inl e \<Rightarrow> Inl (e, saved s)
              | Inr (val_metrics, r2) \<Rightarrow>
                  let val_loss = fst val_metrics;
                      (sc, o') = sched_step ops val_loss (sched s) (opt_state r2);
                      r3 = r2\<lparr>opt_state := o'\<rparr>;
                      s1 = s\<lparr>run := r3, sched := sc,
                             scalars := scalars s @ [(epoch, train_metrics, val_metrics)]\<rparr>
                  in if fp_le val_loss (min_val_loss s1) then
                       Inr (s1\<lparr>saved := saved s1 @ [(Numbered (epoch + 1), params r3)]\<rparr>, False)
                     else
                       let s2 = s1\<lparr>stop := stop s1 + 1\<rparr>
                       in if stop s2 > 5 then
                            Inr (s2\<lparr>run := r3\<lparr>printed := printed r3 @ [EarlyStopping]\<rparr>\<rparr>, True)
                          else Inr (s2, False)))"

fun train_loop ::
  "('p, 'x, 'g, 'o, 's) torch \<Rightarrow> int \<Rightarrow> (nat \<Rightarrow> ('x \<times> nat list) list)
     \<Rightarrow> (nat \<Rightarrow> ('x \<times> nat list) list) \<Rightarrow> nat list \<Rightarrow> ('p, 'g, 'o, 's) tstate
     \<Rightarrow> (error \<times> (checkpoint \<times> 'p) list) + ('p, 'g, 'o, 's) tstate" where
  "train_loop ops epochs train_loader val_loader [] s = Inr s"
| "train_loop ops epochs train_loader val_loader (epoch # rest) s =
     (case train_epoch ops epochs train_loader val_loader epoch s of
        Inl e \<Rightarrow> Inl e
      | Inr (s', break) \<Rightarrow>
          if break then Inr s' else train_loop ops epochs train_loader val_loader rest s')"

text \<open>
  \<^verbatim>\<open>train\<close>, from the model as the caller hands it over (parameters, stored
  gradients, mode flag).  \<^verbatim>\<open>GradScaler()\<close> starts with the scale factor \<open>2\<^sup>1\<^sup>6\<close>, and
  \<^verbatim>\<open>min_val_loss\<close> with \<^verbatim>\<open>math.inf\<close>.
\<close>

definition train ::
  "('p, 'x, 'g, 'o, 's) torch \<Rightarrow> int \<Rightarrow> 'p \<Rightarrow> 'g \<Rightarrow> bool
     \<Rightarrow> (nat \<Rightarrow> ('x \<times> nat list) list) \<Rightarrow> (nat \<Rightarrow> ('x \<times> nat list) list)
     \<Rightarrow> (error \<times> (checkpoint \<times> 'p) list) + ('p, 'g, 'o, 's) tstate" where
  "train ops epochs model_params model_grads model_training train_loader val_loader =
     (let s0 = \<lparr>run = \<lparr>params = model_params, grads = model_grads, training = model_training,
                        opt_state = new_optimizer ops, scale = 65536, growth_tracker = 0,
                        printed = []\<rparr>,
                 sched = new_scheduler ops,
                 stop = 0,
                 min_val_loss = PInf,
                 saved = [(Latest, model_params)],
                 scalars = []\<rparr>
      in case train_loop ops epochs train_loader val_loader [0..<nat epochs] s0 of
           Inl e \<Rightarrow> Inl e
         | Inr s \<Rightarrow> Inr (s\<lparr>saved := saved s @ [(Latest, params (run s))]\<rparr>))"

section \<open>Notions of the specification\<close>

text \<open>
  What the library promises for \<^verbatim>\<open>topk\<close> on a row with at least \<open>k\<close> scores: \<open>k\<close>
  different indices of the row, in descending order of score, and no score left out is
  larger than a score taken.
\<close>

definition valid_topk :: "(nat \<Rightarrow> real list \<Rightarrow> nat list) \<Rightarrow> bool" where
  "valid_topk tk =
     (\<forall>k r. k \<le> length r \<longrightarrow>
        length (tk k r) = k \<and> distinct (tk k r) \<and> set (tk k r) \<subseteq> {..<length r}
        \<and> sorted_wrt (\<lambda>i j. r ! j \<le> r ! i) (tk k r)
        \<and> (\<forall>i<length r. i \<notin> set (tk k r) \<longrightarrow> (\<forall>j\<in>set (tk k r). r ! i \<le> r ! j)))"

text \<open>
  The number of samples of a batch whose label is among the \<open>k\<close> first of the \<open>maxk\<close>
  indices that \<open>tk\<close> returns for their scores.  The source computes the count
  differently, rank by rank.
\<close>

definition hits :: "(nat \<Rightarrow> real list \<Rightarrow> nat list) \<Rightarrow> nat \<Rightarrow> nat \<Rightarrow> real list list \<Rightarrow> nat list \<Rightarrow> nat" where
  "hits tk maxk k rs target =
     length (filter (\<lambda>(r, t). t \<in> set (take k (tk maxk r))) (zip rs target))"

text \<open>
  The percentage of \<open>c\<close> correct predictions among \<open>n\<close> as the 32-bit product of \<open>c\<close>
  with \<^verbatim>\<open>100.0 / n\<close>; for counts below \<open>2\<^sup>2\<^sup>4\<close> it is the finite number \<open>pct c n\<close>.
\<close>

definition percentage :: "nat \<Rightarrow> nat \<Rightarrow> fp" where
  "percentage c n =
     fp_mul binary32 (fround binary32 (real c))
       (fp_cast binary32 (fp_div binary64 (Finite 100) (fround binary64 (real n))))"

definition multiplier :: "nat \<Rightarrow> real" where
  "multiplier n = round_mag binary32 (round_mag binary64 (100 / real n))"

definition pct :: "nat \<Rightarrow> nat \<Rightarrow> real" where
  "pct c n = round_mag binary32 (real c * multiplier n)"

text \<open>
  The average of 32-bit numbers as \<^verbatim>\<open>pass_epoch\<close> forms it: the sum from left to
  right, starting from 0, divided by the count.
\<close>

definition mean32 :: "fp list \<Rightarrow> fp" where
  "mean32 vs =
     fp_div binary32 (foldl (fp_add binary32) (Finite 0) vs) (fround binary32 (real (length vs)))"

text \<open>The loss and the two accuracies of one batch, for a model in a given state.\<close>

definition batch_loss :: "('p, 'x, 'g, 'o, 's) torch \<Rightarrow> bool \<Rightarrow> 'p \<Rightarrow> 'x \<times> nat list \<Rightarrow> fp" where
  "batch_loss ops tr p b = loss_fn ops (forward ops tr p (fst b)) (snd b)"

definition batch_top :: "('p, 'x, 'g, 'o, 's) torch \<Rightarrow> bool \<Rightarrow> 'p \<Rightarrow> nat \<Rightarrow> 'x \<times> nat list \<Rightarrow> fp" where
  "batch_top ops tr p i b =
     (case accuracy (tensor_topk ops) (forward ops tr p (fst b)) (snd b) [1, 5] of
        Inl e \<Rightarrow> NaN
      | Inr tops \<Rightarrow> tops ! i)"

section \<open>A synthetic model\<close>

text \<open>
  A small instance of the library objects for running the functions above on concrete
  inputs.  Its \<^verbatim>\<open>topk\<close> sorts the indices of a row by descending score and puts the
  smaller index first among equal scores, one of the orders the library may choose.
\<close>

fun insert_desc :: "real \<times> nat \<Rightarrow> (real \<times> nat) list \<Rightarrow> (real \<times> nat) list" where
  "insert_desc p [] = [p]"
| "insert_desc p (q # qs) =
     (if fst q \<le> fst p then p # q # qs else q # insert_desc p qs)"

definition argsort_desc :: "real list \<Rightarrow> nat list" where
  "argsort_desc r = map snd (foldr insert_desc (zip r [0..<length r]) [])"

definition topk_indices :: "nat \<Rightarrow> real list \<Rightarrow> nat list" where
  "topk_indices k r = take k (argsort_desc r)"

text \<open>
  The model has one parameter; \<open>None\<close> stands for a parameter or gradient that is
  infinite or NaN.  An input batch is a pair of a number and the gradient it yields; the
  number is the first score, the loss is its 32-bit value, and a negative number stands
  for a batch whose loss is NaN.  The optimizer is gradient descent with learning rate
  \<open>1/10\<close>, and the scheduler does nothing.
\<close>

definition demo :: "(real option, real \<times> real option, real option, unit, unit) torch" where
  "demo = \<lparr>forward = (\<lambda>tr p x. \<lparr>ncols = 5, rows = [[fst x, 0, 0, 0, 0]]\<rparr>),
           tensor_topk = topk_indices,
           loss_fn = (\<lambda>out y. case rows out of
                                 (v # _) # _ \<Rightarrow> if v < 0 then NaN else fround binary32 v
                               | _ \<Rightarrow> NaN),
           zero_grad = (\<lambda>g. Some 0),
           backward = (\<lambda>sc p x y g. case (g, snd x) of
                                      (Some a, Some d) \<Rightarrow> Some (a + sc * d)
                                    | _ \<Rightarrow> None),
           unscale = (\<lambda>sc g. map_option (\<lambda>v. v / sc) g),
           all_finite = (\<lambda>g. g \<noteq> None),
           opt_step = (\<lambda>o' g p. (case (p, g) of
                                    (Some v, Some d) \<Rightarrow> Some (v - d / 10)
                                  | _ \<Rightarrow> None, o')),
           new_optimizer = (),
           new_scheduler = (),
           sched_step = (\<lambda>v s o'. (s, o'))\<rparr>"

definition s0 :: "(real option, real option, unit) pstate" where
  "s0 = \<lparr>params = Some 1, grads = Some 0, training = False, opt_state = (),
          scale = 65536, growth_tracker = 0, printed = []\<rparr>"

section \<open>Properties of the rounding\<close>

declare search_up.simps [simp del] search_down.simps [simp del]

lemma search_up_stop: "fuel = 0 \<or> x < 2 ^ Suc e \<Longrightarrow> search_up fuel e x = e"
  by (subst search_up.simps) simp

lemma search_up_step:
  "\<not> (fuel = 0 \<or> x < 2 ^ Suc e) \<Longrightarrow> search_up fuel e x = search_up (fuel - 1) (Suc e) x"
  by (subst search_up.simps) simp

lemma search_down_stop: "fuel = 0 \<or> 1 \<le> x * 2 ^ k \<Longrightarrow> search_down fuel k x = k"
  by (subst search_down.simps) simp

lemma search_down_step:
  "\<not> (fuel = 0 \<or> 1 \<le> x * 2 ^ k) \<Longrightarrow> search_down fuel k x = search_down (fuel - 1) (Suc k) x"
  by (subst search_down.simps) simp

text \<open>
  Rules for evaluating a rounding on a literal number; a rounding of anything else is left
  as it is.
\<close>

lemmas fround_literal =
  fround_def [where x = 0] fround_def [where x = 1]
  fround_def [where x = "numeral a" for a]
  fround_def [where x = "numeral a / numeral b" for a b]
  fround_def [where x = "1 / numeral b" for b]

lemmas fl_eval = fround_literal round_mag_def exponent_def binary32_def binary64_def pow2_def
  rne_def search_up_stop search_up_step search_down_stop search_down_step


subsection \<open>Powers of two\<close>

lemma pow2_powi: "pow2 e = 2 powi e"
  unfolding pow2_def power_int_def by (simp add: power_one_over inverse_eq_divide)

lemma pow2_pos [simp]: "0 < pow2 e"
  by (simp add: pow2_powi)

lemma pow2_nonneg [simp]: "0 \<le> pow2 e"
  by (simp add: less_imp_le)

lemma pow2_ne0 [simp]: "pow2 e \<noteq> 0"
  by (simp add: pow2_powi)

lemma pow2_add: "pow2 (a + b) = pow2 a * pow2 b"
  by (simp add: pow2_powi power_int_add)

lemma pow2_mono: "a \<le> b \<Longrightarrow> pow2 a \<le> pow2 b"
  by (simp add: pow2_powi power_int_increasing)

lemma pow2_strict_mono: "a < b \<Longrightarrow> pow2 a < pow2 b"
  by (simp add: pow2_powi power_int_strict_increasing)

lemma pow2_nat: "pow2 (int n) = 2 ^ n"
  by (simp add: pow2_def)

lemma pow2_neg_nat: "pow2 (- int n) = 1 / 2 ^ n"
  by (simp add: pow2_powi power_int_minus inverse_eq_divide)

subsection \<open>Rounding to an integer\<close>

lemma rne_cases: "rne x = \<lfloor>x\<rfloor> \<or> rne x = \<lfloor>x\<rfloor> + 1"
  by (simp add: rne_def Let_def)

lemma rne_of_int [simp]: "rne (of_int n) = n"
  by (simp add: rne_def)

lemma rne_0 [simp]: "rne 0 = 0"
  by (simp add: rne_def)

lemma rne_pow2 [simp]: "rne (2 ^ n) = 2 ^ n"
  using rne_of_int[of "2 ^ n"] by simp

lemma rne_mono: "x \<le> y \<Longrightarrow> rne x \<le> rne y"
proof -
  assume xy: "x \<le> y"
  have fl: "\<lfloor>x\<rfloor> \<le> \<lfloor>y\<rfloor>" using xy by (rule floor_mono)
  show ?thesis
  proof (cases "\<lfloor>x\<rfloor> = \<lfloor>y\<rfloor>")
    case True
    then have "x - of_int \<lfloor>x\<rfloor> \<le> y - of_int \<lfloor>y\<rfloor>" using xy by simp
    then show ?thesis using True by (auto simp: rne_def Let_def)
  next
    case False
    then have "\<lfloor>x\<rfloor> + 1 \<le> \<lfloor>y\<rfloor>" using fl by simp
    moreover have "rne x \<le> \<lfloor>x\<rfloor> + 1" using rne_cases[of x] by auto
    moreover have "\<lfloor>y\<rfloor> \<le> rne y" using rne_cases[of y] by auto
    ultimately show ?thesis by linarith
  qed
qed

lemma rne_upper: "of_int (rne x) \<le> x + 1 / 2"
  by (auto simp: rne_def Let_def) linarith+

lemma rne_lower: "x - 1 / 2 \<le> of_int (rne x)"
  by (auto simp: rne_def Let_def) linarith+

subsection \<open>The exponent\<close>

lemma search_up_bounds:
  "e \<le> search_up fuel e x \<and> search_up fuel e x \<le> e + fuel"
proof (induction fuel e x rule: search_up.induct)
  case (1 fuel e x)
  show ?case
  proof (cases "fuel = 0 \<or> x < 2 ^ Suc e")
    case True
    then show ?thesis by (subst (1 2) search_up.simps) simp
  next
    case False
    then show ?thesis using 1 by (subst (1 2) search_up.simps) auto
  qed
qed

lemma search_up_upper:
  "search_up fuel e x < e + fuel \<Longrightarrow> x < 2 ^ Suc (search_up fuel e x)"
proof (induction fuel e x rule: search_up.induct)
  case (1 fuel e x)
  show ?case
  proof (cases "fuel = 0 \<or> x < 2 ^ Suc e")
    case True
    then show ?thesis using "1.prems" by (subst search_up.simps, subst (asm) search_up.simps) auto
  next
    case False
    then have eq: "search_up fuel e x = search_up (fuel - 1) (Suc e) x"
      by (subst search_up.simps) simp
    have "search_up (fuel - 1) (Suc e) x < Suc e + (fuel - 1)"
      using "1.prems" False eq by simp
    then show ?thesis using 1(1)[OF False] eq by simp
  qed
qed

lemma search_up_lower:
  "2 ^ e \<le> x \<Longrightarrow> 2 ^ search_up fuel e x \<le> x"
proof (induction fuel e x rule: search_up.induct)
  case (1 fuel e x)
  show ?case
  proof (cases "fuel = 0 \<or> x < 2 ^ Suc e")
    case True
    then show ?thesis using "1.prems" by (subst search_up.simps) simp
  next
    case False
    then have eq: "search_up fuel e x = search_up (fuel - 1) (Suc e) x"
      by (subst search_up.simps) simp
    have "2 ^ Suc e \<le> x" using False by simp
    then show ?thesis using 1(1)[OF False] eq by simp
  qed
qed

lemma search_down_bounds:
  "k \<le> search_down fuel k x \<and> search_down fuel k x \<le> k + fuel"
proof (induction fuel k x rule: search_down.induct)
  case (1 fuel k x)
  show ?case
  proof (cases "fuel = 0 \<or> 1 \<le> x * 2 ^ k")
    case True
    then show ?thesis by (subst (1 2) search_down.simps) simp
  next
    case False
    then show ?thesis using 1 by (subst (1 2) search_down.simps) auto
  qed
qed

lemma search_down_lower:
  "search_down fuel k x < k + fuel \<Longrightarrow> 1 \<le> x * 2 ^ search_down fuel k x"
proof (induction fuel k x rule: search_down.induct)
  case (1 fuel k x)
  show ?case
  proof (cases "fuel = 0 \<or> 1 \<le> x * 2 ^ k")
    case True
    then show ?thesis using "1.prems" by (subst search_down.simps, subst (asm) search_down.simps) auto
  next
    case False
    then have eq: "search_down fuel k x = search_down (fuel - 1) (Suc k) x"
      by (subst search_down.simps) simp
    have "search_down (fuel - 1) (Suc k) x < Suc k + (fuel - 1)"
      using "1.prems" False eq by simp
    then show ?thesis using 1(1)[OF False] eq by simp
  qed
qed

lemma search_down_upper:
  "x * 2 ^ k < 2 \<Longrightarrow> x * 2 ^ search_down fuel k x < 2"
proof (induction fuel k x rule: search_down.induct)
  case (1 fuel k x)
  show ?case
  proof (cases "fuel = 0 \<or> 1 \<le> x * 2 ^ k")
    case True
    then show ?thesis using "1.prems" by (subst search_down.simps) simp
  next
    case False
    then have eq: "search_down fuel k x = search_down (fuel - 1) (Suc k) x"
      by (subst search_down.simps) simp
    have "x * 2 ^ Suc k < 2" using False by simp
    then show ?thesis using 1(1)[OF False] eq by simp
  qed
qed


lemma wf_binary32 [simp]: "wf_format binary32"
  by (simp add: wf_format_def binary32_def)

lemma wf_binary64 [simp]: "wf_format binary64"
  by (simp add: wf_format_def binary64_def)

lemma exponent_range:
  assumes "wf_format f"
  shows "emin f \<le> exponent f x \<and> exponent f x \<le> emax f"
proof (cases "1 \<le> x")
  case True
  have "search_up (nat (emax f)) 0 x \<le> nat (emax f)"
    using search_up_bounds[of 0 "nat (emax f)" x] by simp
  then have "int (search_up (nat (emax f)) 0 x) \<le> int (nat (emax f))"
    by (simp only: of_nat_le_iff)
  then have "int (search_up (nat (emax f)) 0 x) \<le> emax f"
    using assms by (simp add: wf_format_def)
  then show ?thesis
    using assms True by (simp add: exponent_def wf_format_def)
next
  case False
  have "1 \<le> search_down (nat (- emin f) - 1) 1 x
        \<and> search_down (nat (- emin f) - 1) 1 x \<le> 1 + (nat (- emin f) - 1)"
    using search_down_bounds[of 1 "nat (- emin f) - 1" x] by simp
  then have "emin f \<le> - int (search_down (nat (- emin f) - 1) 1 x)
             \<and> - int (search_down (nat (- emin f) - 1) 1 x) \<le> emax f"
    using assms by (auto simp: wf_format_def)
  then show ?thesis
    using False by (simp add: exponent_def)
qed

lemma exponent_upper:
  assumes "wf_format f" "0 \<le> x" "exponent f x < emax f"
  shows "x < pow2 (exponent f x + 1)"
proof (cases "1 \<le> x")
  case True
  let ?s = "search_up (nat (emax f)) 0 x"
  have "?s < 0 + nat (emax f)" using assms True by (simp add: exponent_def)
  then have "x < 2 ^ Suc ?s" by (rule search_up_upper)
  moreover have "exponent f x + 1 = int (Suc ?s)" using True by (simp add: exponent_def)
  ultimately show ?thesis by (simp only: pow2_nat)
next
  case False
  let ?s = "search_down (nat (- emin f) - 1) 1 x"
  have "x * 2 ^ 1 < 2" using False by simp
  then have "x * 2 ^ ?s < 2" by (rule search_down_upper)
  then have "x < 2 / 2 ^ ?s" by (simp add: pos_less_divide_eq)
  moreover have "1 \<le> ?s" using search_down_bounds[of 1 _ x] by simp
  then have "pow2 (exponent f x + 1) = 2 / 2 ^ ?s"
    using False pow2_neg_nat[of "?s - 1"] by (cases ?s) (simp_all add: exponent_def)
  ultimately show ?thesis by simp
qed

lemma exponent_lower:
  assumes "wf_format f" "emin f < exponent f x"
  shows "pow2 (exponent f x) \<le> x"
proof (cases "1 \<le> x")
  case True
  let ?s = "search_up (nat (emax f)) 0 x"
  have "2 ^ 0 \<le> x" using True by simp
  then have "2 ^ ?s \<le> x" by (rule search_up_lower)
  then show ?thesis using True by (simp add: exponent_def pow2_nat)
next
  case False
  let ?s = "search_down (nat (- emin f) - 1) 1 x"
  have "?s < 1 + (nat (- emin f) - 1)" using assms False by (simp add: exponent_def wf_format_def)
  then have "1 \<le> x * 2 ^ ?s" by (rule search_down_lower)
  then have "1 / 2 ^ ?s \<le> x" by (simp add: pos_divide_le_eq)
  then show ?thesis using False by (simp add: exponent_def pow2_neg_nat)
qed

lemma exponent_lower_normal:
  assumes "wf_format f" "pow2 (emin f) \<le> x"
  shows "pow2 (exponent f x) \<le> x"
proof (cases "emin f < exponent f x")
  case True
  then show ?thesis using assms(1) by (rule exponent_lower[rotated])
next
  case False
  then have "exponent f x = emin f" using exponent_range[OF assms(1), of x] by simp
  then show ?thesis using assms(2) by simp
qed

lemma exponent_mono:
  assumes "wf_format f" "0 \<le> x" "x \<le> y"
  shows "exponent f x \<le> exponent f y"
proof (rule ccontr)
  assume "\<not> exponent f x \<le> exponent f y"
  then have lt: "exponent f y < exponent f x" by simp
  have "emin f < exponent f x" using lt exponent_range[OF assms(1), of y] by simp
  then have a: "pow2 (exponent f x) \<le> x" by (rule exponent_lower[OF assms(1)])
  have "exponent f y < emax f" using lt exponent_range[OF assms(1), of x] by simp
  then have "y < pow2 (exponent f y + 1)" using assms by (intro exponent_upper) auto
  also have "\<dots> \<le> pow2 (exponent f x)" using lt by (intro pow2_mono) simp
  finally show False using a assms(3) by simp
qed

subsection \<open>Rounding a magnitude\<close>

lemma round_mag_nonneg: "0 \<le> x \<Longrightarrow> 0 \<le> round_mag f x"
proof -
  assume "0 \<le> x"
  then have "0 \<le> x / pow2 (exponent f x - int (prec f) + 1)" by simp
  then have "rne 0 \<le> rne (x / pow2 (exponent f x - int (prec f) + 1))" by (rule rne_mono)
  then have "0 \<le> rne (x / pow2 (exponent f x - int (prec f) + 1))" by simp
  then show ?thesis by (simp add: round_mag_def Let_def)
qed

lemma round_mag_le_top:
  assumes "wf_format f" "0 \<le> x" "exponent f x < emax f"
  shows "round_mag f x \<le> pow2 (exponent f x + 1)"
proof -
  let ?q = "pow2 (exponent f x - int (prec f) + 1)"
  have "x \<le> pow2 (exponent f x + 1)" using exponent_upper[OF assms] by simp
  also have "pow2 (exponent f x + 1) = pow2 (int (prec f)) * ?q"
    by (simp add: pow2_add[symmetric])
  finally have "x / ?q \<le> of_int (2 ^ prec f)" by (simp add: pos_divide_le_eq pow2_nat)
  then have "rne (x / ?q) \<le> rne (of_int (2 ^ prec f))" by (rule rne_mono)
  then have "of_int (rne (x / ?q)) * ?q \<le> of_int (2 ^ prec f) * ?q"
    by (intro mult_right_mono) (simp_all add: less_imp_le)
  also have "\<dots> = pow2 (exponent f x + 1)"
    using pow2_add[of "int (prec f)" "exponent f x - int (prec f) + 1"] by (simp add: pow2_nat)
  finally show ?thesis by (simp add: round_mag_def Let_def)
qed

lemma round_mag_ge_bottom:
  assumes "wf_format f" "emin f < exponent f x"
  shows "pow2 (exponent f x) \<le> round_mag f x"
proof -
  let ?q = "pow2 (exponent f x - int (prec f) + 1)"
  have p: "int (prec f) - 1 = int (prec f - 1)" using assms(1) by (simp add: wf_format_def)
  have eq: "pow2 (exponent f x) = pow2 (int (prec f) - 1) * ?q"
    by (simp add: pow2_add[symmetric])
  have "pow2 (exponent f x) \<le> x" using assms by (rule exponent_lower)
  then have "of_int (2 ^ (prec f - 1)) \<le> x / ?q"
    by (simp add: eq pos_le_divide_eq p pow2_nat)
  then have "rne (of_int (2 ^ (prec f - 1))) \<le> rne (x / ?q)" by (rule rne_mono)
  then have "of_int (2 ^ (prec f - 1)) * ?q \<le> of_int (rne (x / ?q)) * ?q"
    by (intro mult_right_mono) (simp_all add: less_imp_le)
  then show ?thesis by (simp add: round_mag_def Let_def eq p pow2_nat)
qed

lemma round_mag_mono:
  assumes "wf_format f" "0 \<le> x" "x \<le> y"
  shows "round_mag f x \<le> round_mag f y"
proof (cases "exponent f x = exponent f y")
  case True
  let ?q = "pow2 (exponent f y - int (prec f) + 1)"
  have "x / ?q \<le> y / ?q" using assms(3) by (simp add: divide_right_mono less_imp_le)
  then have "rne (x / ?q) \<le> rne (y / ?q)" by (rule rne_mono)
  then have "of_int (rne (x / ?q)) * ?q \<le> of_int (rne (y / ?q)) * ?q"
    by (intro mult_right_mono) (simp_all add: less_imp_le)
  then show ?thesis using True by (simp add: round_mag_def Let_def)
next
  case False
  then have lt: "exponent f x < exponent f y"
    using exponent_mono[OF assms] by simp
  have "exponent f x < emax f" using lt exponent_range[OF assms(1), of y] by simp
  then have "round_mag f x \<le> pow2 (exponent f x + 1)"
    using assms by (intro round_mag_le_top) auto
  also have "\<dots> \<le> pow2 (exponent f y)" using lt by (intro pow2_mono) simp
  also have "\<dots> \<le> round_mag f y"
    using lt exponent_range[OF assms(1), of x] by (intro round_mag_ge_bottom[OF assms(1)]) simp
  finally show ?thesis .
qed

lemma round_mag_upper:
  assumes "wf_format f" "pow2 (emin f) \<le> x"
  shows "round_mag f x \<le> x * (1 + pow2 (- int (prec f)))"
proof -
  let ?q = "pow2 (exponent f x - int (prec f) + 1)"
  have "of_int (rne (x / ?q)) \<le> x / ?q + 1 / 2" by (rule rne_upper)
  then have "of_int (rne (x / ?q)) * ?q \<le> (x / ?q + 1 / 2) * ?q"
    by (intro mult_right_mono) (simp_all add: less_imp_le)
  also have "\<dots> = x + ?q / 2" by (simp add: distrib_right)
  also have "?q / 2 = pow2 (exponent f x) * pow2 (- int (prec f))"
    using pow2_add[of "exponent f x - int (prec f)" 1] pow2_add[of "exponent f x" "- int (prec f)"]
    by (simp add: pow2_def[of 1])
  also have "\<dots> \<le> x * pow2 (- int (prec f))"
    using exponent_lower_normal[OF assms] by (intro mult_right_mono) (simp_all add: less_imp_le)
  finally show ?thesis by (simp add: round_mag_def Let_def distrib_left)
qed

lemma round_mag_lower:
  assumes "wf_format f" "pow2 (emin f) \<le> x"
  shows "x * (1 - pow2 (- int (prec f))) \<le> round_mag f x"
proof -
  let ?q = "pow2 (exponent f x - int (prec f) + 1)"
  have h: "?q / 2 = pow2 (exponent f x) * pow2 (- int (prec f))"
    using pow2_add[of "exponent f x - int (prec f)" 1] pow2_add[of "exponent f x" "- int (prec f)"]
    by (simp add: pow2_def[of 1])
  have "pow2 (exponent f x) * pow2 (- int (prec f)) \<le> x * pow2 (- int (prec f))"
    using exponent_lower_normal[OF assms] by (intro mult_right_mono) (simp_all add: less_imp_le)
  then have "x * (1 - pow2 (- int (prec f))) \<le> x - ?q / 2"
    by (simp add: h right_diff_distrib)
  also have "\<dots> = (x / ?q - 1 / 2) * ?q" by (simp add: left_diff_distrib)
  also have "\<dots> \<le> of_int (rne (x / ?q)) * ?q"
    by (intro mult_right_mono rne_lower) (simp_all add: less_imp_le)
  finally show ?thesis by (simp add: round_mag_def Let_def)
qed

subsection \<open>Counts and percentages\<close>


lemma fround_nonneg:
  assumes "0 \<le> x" "round_mag f x < pow2 (emax f + 1)"
  shows "fround f x = Finite (round_mag f x)"
  using assms by (simp add: fround_def Let_def)

lemma round_mag_nat:
  assumes "wf_format f" "n < 2 ^ prec f"
  shows "round_mag f (real n) = real n"
proof (cases "n = 0")
  case True
  then show ?thesis by (simp add: round_mag_def)
next
  case False
  then have one: "1 \<le> real n" by simp
  let ?E = "exponent f (real n)"
  have E0: "0 \<le> ?E" using one by (simp add: exponent_def)
  then have "emin f < ?E" using assms(1) by (simp add: wf_format_def)
  then have "pow2 ?E \<le> real n" by (rule exponent_lower[OF assms(1)])
  also have "real n < pow2 (int (prec f))" using assms(2) by (simp add: pow2_nat)
  finally have lt: "pow2 ?E < pow2 (int (prec f))" .
  have "?E < int (prec f)"
  proof (rule ccontr)
    assume "\<not> ?E < int (prec f)"
    then have "pow2 (int (prec f)) \<le> pow2 ?E" by (intro pow2_mono) simp
    then show False using lt by simp
  qed
  then have "0 \<le> int (prec f) - 1 - ?E" by simp
  then obtain k where k': "int (prec f) - 1 - ?E = int k"
    using zero_le_imp_eq_int by blast
  then have k: "?E - int (prec f) + 1 = - int k" by simp
  have "real n / pow2 (- int k) = of_int (int (n * 2 ^ k))"
    by (simp add: pow2_neg_nat)
  then have "rne (real n / pow2 (- int k)) = int (n * 2 ^ k)"
    by (simp only: rne_of_int)
  then show ?thesis
    by (simp add: round_mag_def Let_def k pow2_neg_nat)
qed


lemma round_mag_fixed_hi: "round_mag binary32 (100 + 1 / 2 ^ 17) = 100 + 1 / 2 ^ 17"
  by (simp add: fl_eval)

lemma round_mag_fixed_lo: "round_mag binary32 (100 - 1 / 2 ^ 17) = 100 - 1 / 2 ^ 17"
  by (simp add: fl_eval)

lemma eps64: "pow2 (- int (prec binary64)) = 1 / 2 ^ 53"
  using pow2_neg_nat[of 53] by (simp add: binary64_def)

lemma eps32: "pow2 (- int (prec binary32)) = 1 / 2 ^ 24"
  using pow2_neg_nat[of 24] by (simp add: binary32_def)

lemma tiny64: "pow2 (emin binary64) \<le> 1 / 2 ^ 19"
proof -
  have "pow2 (- int 19) \<le> 1 / 2 ^ 19" by (simp only: pow2_neg_nat)
  moreover have "pow2 (emin binary64) \<le> pow2 (- int 19)"
    by (rule pow2_mono) (simp add: binary64_def)
  ultimately show ?thesis by (rule order_trans[rotated])
qed

lemma tiny32: "pow2 (emin binary32) \<le> 1 / 2 ^ 19"
proof -
  have "pow2 (- int 19) \<le> 1 / 2 ^ 19" by (simp only: pow2_neg_nat)
  moreover have "pow2 (emin binary32) \<le> pow2 (- int 19)"
    by (rule pow2_mono) (simp add: binary32_def)
  ultimately show ?thesis by (rule order_trans[rotated])
qed



lemma multiplier_bounds:
  assumes "0 < n" "n < 2 ^ 24"
  shows "100 / real n * ((1 - 1 / 2 ^ 53) * (1 - 1 / 2 ^ 24)) \<le> multiplier n"
    and "multiplier n \<le> 100 / real n * ((1 + 1 / 2 ^ 53) * (1 + 1 / 2 ^ 24))"
    and "1 / 2 ^ 20 \<le> multiplier n"
proof -
  define t where "t = 100 / real n"
  define D where "D = round_mag binary64 t"
  define u :: real where "u = 1 / 2 ^ 53"
  define v :: real where "v = 1 / 2 ^ 24"
  have uv: "0 \<le> 1 - u" "0 \<le> 1 + u" "0 \<le> 1 - v" "0 \<le> 1 + v" "1 / 2 \<le> 1 - u" "1 / 2 \<le> 1 - v"
    by (simp_all add: u_def v_def)
  have n: "1 \<le> real n" "real n \<le> 2 ^ 24" using assms by simp_all
  have "1 / 2 ^ 18 * real n \<le> 1 / 2 ^ 18 * 2 ^ 24" using n(2) by (intro mult_left_mono) simp_all
  also have "\<dots> \<le> (100::real)" by simp
  finally have t_lo: "1 / 2 ^ 18 \<le> t"
    using n(1) by (simp add: t_def pos_le_divide_eq)
  have t64: "pow2 (emin binary64) \<le> t" using tiny64 t_lo by simp
  have D_hi: "D \<le> t * (1 + u)"
    using round_mag_upper[OF wf_binary64 t64] by (simp only: D_def u_def eps64)
  have D_lo: "t * (1 - u) \<le> D"
    using round_mag_lower[OF wf_binary64 t64] by (simp only: D_def u_def eps64)
  have "1 / 2 ^ 18 * (1 / 2) \<le> t * (1 - u)"
    using t_lo uv(5) by (intro mult_mono) simp_all
  then have D_lo': "1 / 2 ^ 19 \<le> D" using D_lo by simp
  have D32: "pow2 (emin binary32) \<le> D" using tiny32 D_lo' by simp
  have M: "multiplier n = round_mag binary32 D"
    by (simp add: multiplier_def D_def t_def)
  have M_hi: "multiplier n \<le> D * (1 + v)"
    using round_mag_upper[OF wf_binary32 D32] by (simp only: M v_def eps32)
  have M_lo: "D * (1 - v) \<le> multiplier n"
    using round_mag_lower[OF wf_binary32 D32] by (simp only: M v_def eps32)
  have "D * (1 + v) \<le> (t * (1 + u)) * (1 + v)"
    using D_hi uv(4) by (rule mult_right_mono)
  then have "multiplier n \<le> t * ((1 + u) * (1 + v))"
    using M_hi by (simp only: mult.assoc)
  then show "multiplier n \<le> 100 / real n * ((1 + 1 / 2 ^ 53) * (1 + 1 / 2 ^ 24))"
    by (simp only: t_def u_def v_def)
  have "(t * (1 - u)) * (1 - v) \<le> D * (1 - v)"
    using D_lo uv(3) by (rule mult_right_mono)
  then have "t * ((1 - u) * (1 - v)) \<le> multiplier n"
    using M_lo by (simp only: mult.assoc)
  then show "100 / real n * ((1 - 1 / 2 ^ 53) * (1 - 1 / 2 ^ 24)) \<le> multiplier n"
    by (simp only: t_def u_def v_def)
  have "1 / 2 ^ 19 * (1 / 2) \<le> D * (1 - v)"
    using D_lo' uv(6) by (intro mult_mono) simp_all
  then show "1 / 2 ^ 20 \<le> multiplier n" using M_lo by simp
qed


lemma big32: "(200::real) < pow2 (emax binary32 + 1)"
proof -
  have "(200::real) < pow2 (int 8)" by (simp only: pow2_nat) simp
  also have "\<dots> \<le> pow2 (emax binary32 + 1)" by (rule pow2_mono) (simp add: binary32_def)
  finally show ?thesis .
qed

lemma big64: "(2 ^ 24::real) < pow2 (emax binary64 + 1)"
proof -
  have "(2 ^ 24::real) < pow2 (int 25)" by (simp only: pow2_nat) simp
  also have "\<dots> \<le> pow2 (emax binary64 + 1)" by (rule pow2_mono) (simp add: binary64_def)
  finally show ?thesis .
qed

lemma fround64_nat:
  assumes "n < 2 ^ 24"
  shows "fround binary64 (real n) = Finite (real n)"
proof -
  have "n < 2 ^ prec binary64"
    using assms by (simp add: binary64_def)
  then have r: "round_mag binary64 (real n) = real n" by (rule round_mag_nat[OF wf_binary64])
  have "real n < 2 ^ 24" using assms by (metis of_nat_less_iff of_nat_numeral of_nat_power)
  then have "round_mag binary64 (real n) < pow2 (emax binary64 + 1)"
    using big64 r by simp
  then show ?thesis using r fround_nonneg[of "real n" binary64] by simp
qed

lemma fround32_nat:
  assumes "n < 2 ^ 24"
  shows "fround binary32 (real n) = Finite (real n)"
proof -
  have "n < 2 ^ prec binary32" using assms by (simp add: binary32_def)
  then have r: "round_mag binary32 (real n) = real n" by (rule round_mag_nat[OF wf_binary32])
  have "real n < 2 ^ 24" using assms by (metis of_nat_less_iff of_nat_numeral of_nat_power)
  also have "\<dots> < pow2 (int 25)" by (simp only: pow2_nat) simp
  also have "\<dots> \<le> pow2 (emax binary32 + 1)" by (rule pow2_mono) (simp add: binary32_def)
  finally have "round_mag binary32 (real n) < pow2 (emax binary32 + 1)" using r by simp
  then show ?thesis using r fround_nonneg[of "real n" binary32] by simp
qed

lemma quotient64:
  assumes "0 < n" "n < 2 ^ 24"
  shows "fp_div binary64 (Finite 100) (fround binary64 (real n))
         = Finite (round_mag binary64 (100 / real n))"
proof -
  have n: "1 \<le> real n" "real n \<le> 2 ^ 24" using assms by simp_all
  have "100 / real n \<le> 100" using n(1) by (simp add: pos_divide_le_eq)
  then have "round_mag binary64 (100 / real n) \<le> round_mag binary64 (real (100::nat))"
    by (intro round_mag_mono) simp_all
  also have "\<dots> = real (100::nat)" by (rule round_mag_nat[OF wf_binary64]) (simp add: binary64_def)
  also have "\<dots> < 2 ^ 24" by simp
  finally have "round_mag binary64 (100 / real n) < pow2 (emax binary64 + 1)"
    using big64 by simp
  then have "fround binary64 (100 / real n) = Finite (round_mag binary64 (100 / real n))"
    by (intro fround_nonneg) simp
  then show ?thesis using assms by (simp add: fround64_nat)
qed

lemma hundred_hi: "(100::real) * ((1 + 1 / 2 ^ 53) * (1 + 1 / 2 ^ 24)) \<le> 100 + 1 / 2 ^ 17"
  by simp

lemma hundred_lo: "(100::real) - 1 / 2 ^ 17 \<le> 100 * ((1 - 1 / 2 ^ 53) * (1 - 1 / 2 ^ 24))"
  by simp

lemma multiplier_n:
  assumes "0 < n" "n < 2 ^ 24"
  shows "real n * multiplier n \<le> 100 + 1 / 2 ^ 17"
    and "100 - 1 / 2 ^ 17 \<le> real n * multiplier n"
proof -
  have n: "0 < real n" using assms by simp
  have "real n * multiplier n \<le> real n * (100 / real n * ((1 + 1 / 2 ^ 53) * (1 + 1 / 2 ^ 24)))"
    using multiplier_bounds(2)[OF assms] n by (intro mult_left_mono) simp_all
  also have "\<dots> = 100 * ((1 + 1 / 2 ^ 53) * (1 + 1 / 2 ^ 24))" using n by simp
  finally show "real n * multiplier n \<le> 100 + 1 / 2 ^ 17" using hundred_hi by linarith
  have "real n * (100 / real n * ((1 - 1 / 2 ^ 53) * (1 - 1 / 2 ^ 24))) \<le> real n * multiplier n"
    using multiplier_bounds(1)[OF assms] n by (intro mult_left_mono) simp_all
  moreover have "real n * (100 / real n * ((1 - 1 / 2 ^ 53) * (1 - 1 / 2 ^ 24)))
                 = 100 * ((1 - 1 / 2 ^ 53) * (1 - 1 / 2 ^ 24))" using n by simp
  ultimately show "100 - 1 / 2 ^ 17 \<le> real n * multiplier n" using hundred_lo by linarith
qed



lemma multiplier_nonneg: "0 \<le> multiplier n"
  unfolding multiplier_def by (intro round_mag_nonneg) simp

lemma pct_nonneg: "0 \<le> pct c n"
  unfolding pct_def by (intro round_mag_nonneg mult_nonneg_nonneg multiplier_nonneg) simp

lemma pct_mono: "c \<le> c' \<Longrightarrow> pct c n \<le> pct c' n"
  unfolding pct_def
  by (intro round_mag_mono mult_right_mono mult_nonneg_nonneg multiplier_nonneg) simp_all

lemma pct_le:
  assumes "0 < n" "n < 2 ^ 24" "c \<le> n"
  shows "pct c n \<le> 100 + 1 / 2 ^ 17"
proof -
  have "pct c n \<le> pct n n" using assms(3) by (rule pct_mono)
  also have "\<dots> \<le> round_mag binary32 (100 + 1 / 2 ^ 17)"
    unfolding pct_def using multiplier_n(1)[OF assms(1,2)]
    by (intro round_mag_mono mult_nonneg_nonneg multiplier_nonneg) simp_all
  finally show ?thesis by (simp only: round_mag_fixed_hi)
qed

lemma pct_full:
  assumes "0 < n" "n < 2 ^ 24"
  shows "100 - 1 / 2 ^ 17 \<le> pct n n"
proof -
  have "round_mag binary32 (100 - 1 / 2 ^ 17) \<le> pct n n"
    unfolding pct_def using multiplier_n(2)[OF assms]
    by (intro round_mag_mono) simp_all
  then show ?thesis by (simp only: round_mag_fixed_lo)
qed

lemma percentage_Finite:
  assumes "0 < n" "n < 2 ^ 24" "c \<le> n"
  shows "percentage c n = Finite (pct c n)"
proof -
  have c: "c < 2 ^ 24" using assms by simp
  have n1: "1 \<le> real n" using assms by simp
  have "1 * multiplier n \<le> real n * multiplier n"
    using n1 multiplier_nonneg by (intro mult_right_mono)
  then have "multiplier n \<le> 100 + 1 / 2 ^ 17"
    using multiplier_n(1)[OF assms(1,2)] by simp
  then have "round_mag binary32 (round_mag binary64 (100 / real n)) < pow2 (emax binary32 + 1)"
    using big32 by (simp add: multiplier_def)
  then have m: "fround binary32 (round_mag binary64 (100 / real n)) = Finite (multiplier n)"
    unfolding multiplier_def by (intro fround_nonneg round_mag_nonneg) simp_all
  have "pct c n < pow2 (emax binary32 + 1)"
    using pct_le[OF assms] big32 by simp
  then have p: "fround binary32 (real c * multiplier n) = Finite (pct c n)"
    unfolding pct_def by (intro fround_nonneg mult_nonneg_nonneg multiplier_nonneg) simp_all
  show ?thesis
    by (simp add: percentage_def quotient64[OF assms(1,2)] fround32_nat[OF c] m p)
qed

lemma rel_hi: "((1::real) + 1 / 2 ^ 53) * (1 + 1 / 2 ^ 24) * (1 + 1 / 2 ^ 24) \<le> 1 + 1 / 2 ^ 22"
  by simp

lemma rel_lo: "(1::real) - 1 / 2 ^ 22 \<le> (1 - 1 / 2 ^ 53) * (1 - 1 / 2 ^ 24) * (1 - 1 / 2 ^ 24)"
  by simp

lemma pct_relative:
  assumes "0 < n" "n < 2 ^ 24"
  shows "\<bar>pct c n - 100 * real c / real n\<bar> \<le> 100 * real c / real n / 2 ^ 22"
proof (cases "c = 0")
  case True
  then show ?thesis by (simp add: pct_def round_mag_def)
next
  case False
  define x where "x = 100 * real c / real n"
  define M where "M = multiplier n"
  have c1: "1 \<le> real c" using False by simp
  have x0: "0 \<le> x" by (simp add: x_def)
  have M_lo: "100 / real n * ((1 - 1 / 2 ^ 53) * (1 - 1 / 2 ^ 24)) \<le> M"
    and M_hi: "M \<le> 100 / real n * ((1 + 1 / 2 ^ 53) * (1 + 1 / 2 ^ 24))"
    and M_small: "1 / 2 ^ 20 \<le> M"
    using multiplier_bounds[OF assms] by (simp_all add: M_def)
  have re: "real c * (100 / real n * K) = x * K" for K
    by (simp add: x_def)
  have cM_hi: "real c * M \<le> x * ((1 + 1 / 2 ^ 53) * (1 + 1 / 2 ^ 24))"
  proof -
    have "real c * M \<le> real c * (100 / real n * ((1 + 1 / 2 ^ 53) * (1 + 1 / 2 ^ 24)))"
      using M_hi by (intro mult_left_mono) simp_all
    then show ?thesis by (simp only: re)
  qed
  have cM_lo: "x * ((1 - 1 / 2 ^ 53) * (1 - 1 / 2 ^ 24)) \<le> real c * M"
  proof -
    have "real c * (100 / real n * ((1 - 1 / 2 ^ 53) * (1 - 1 / 2 ^ 24))) \<le> real c * M"
      using M_lo by (intro mult_left_mono) simp_all
    then show ?thesis by (simp only: re)
  qed
  have "1 * (1 / 2 ^ 20) \<le> real c * M" using c1 M_small by (intro mult_mono) simp_all
  have small: "pow2 (emin binary32) \<le> real c * M"
  proof -
    have "pow2 (emin binary32) \<le> pow2 (- int 20)" by (rule pow2_mono) (simp add: binary32_def)
    also have "\<dots> = 1 / 2 ^ 20" by (simp only: pow2_neg_nat)
    also have "\<dots> \<le> real c * M" using \<open>1 * (1 / 2 ^ 20) \<le> real c * M\<close> by simp
    finally show ?thesis .
  qed
  have p_hi: "pct c n \<le> real c * M * (1 + 1 / 2 ^ 24)"
    using round_mag_upper[OF wf_binary32 small] by (simp only: pct_def M_def eps32)
  have p_lo: "real c * M * (1 - 1 / 2 ^ 24) \<le> pct c n"
    using round_mag_lower[OF wf_binary32 small] by (simp only: pct_def M_def eps32)
  have "real c * M * (1 + 1 / 2 ^ 24) \<le> x * ((1 + 1 / 2 ^ 53) * (1 + 1 / 2 ^ 24)) * (1 + 1 / 2 ^ 24)"
    using cM_hi by (intro mult_right_mono) simp_all
  also have "\<dots> = x * ((1 + 1 / 2 ^ 53) * (1 + 1 / 2 ^ 24) * (1 + 1 / 2 ^ 24))"
    by (simp only: mult.assoc)
  also have "\<dots> \<le> x * (1 + 1 / 2 ^ 22)"
    using rel_hi x0 by (intro mult_left_mono)
  finally have hi: "pct c n \<le> x * (1 + 1 / 2 ^ 22)" using p_hi by linarith
  have "x * (1 - 1 / 2 ^ 22) \<le> x * ((1 - 1 / 2 ^ 53) * (1 - 1 / 2 ^ 24) * (1 - 1 / 2 ^ 24))"
    using rel_lo x0 by (intro mult_left_mono)
  also have "\<dots> = x * ((1 - 1 / 2 ^ 53) * (1 - 1 / 2 ^ 24)) * (1 - 1 / 2 ^ 24)"
    by (simp only: mult.assoc)
  also have "\<dots> \<le> real c * M * (1 - 1 / 2 ^ 24)"
    using cM_lo by (intro mult_right_mono) simp_all
  finally have lo: "x * (1 - 1 / 2 ^ 22) \<le> pct c n" using p_lo by linarith
  define w :: real where "w = 1 / 2 ^ 22"
  have hi': "pct c n \<le> x * (1 + w)" and lo': "x * (1 - w) \<le> pct c n"
    using hi lo by (simp_all only: w_def)
  have e1: "x * (1 + w) = x + x * w"
    by (simp add: algebra_simps)
  have e2: "x * (1 - w) = x - x * w"
    by (simp add: algebra_simps)
  have hi'': "pct c n \<le> x + x * w" using hi' by (simp only: e1)
  have lo'': "x - x * w \<le> pct c n" using lo' by (simp only: e2)
  have "\<bar>pct c n - x\<bar> \<le> x * w"
    by (rule abs_leI) (use hi'' lo'' in \<open>simp_all add: algebra_simps\<close>)
  then have "\<bar>pct c n - x\<bar> \<le> x / 2 ^ 22" by (simp only: w_def times_divide_eq_right mult_1_right)
  then show ?thesis by (simp only: x_def)
qed

section \<open>Properties of the ranking and of the count\<close>

lemma set_insert_desc: "set (insert_desc p qs) = insert p (set qs)"
  by (induction qs) auto

lemma length_insert_desc: "length (insert_desc p qs) = Suc (length qs)"
  by (induction qs) auto

lemma set_foldr_insert_desc: "set (foldr insert_desc ps []) = set ps"
  by (induction ps) (auto simp: set_insert_desc)

lemma length_foldr_insert_desc: "length (foldr insert_desc ps []) = length ps"
  by (induction ps) (auto simp: length_insert_desc)

lemma length_argsort_desc: "length (argsort_desc r) = length r"
  by (simp add: argsort_desc_def length_foldr_insert_desc)

lemma set_argsort_desc: "set (argsort_desc r) = {0..<length r}"
proof -
  have "map snd (zip r [0..<length r]) = [0..<length r]"
    by (rule map_snd_zip) simp
  then have "set (map snd (zip r [0..<length r])) = {0..<length r}"
    by (simp only: set_upt)
  then show ?thesis
    by (simp only: argsort_desc_def set_map set_foldr_insert_desc)
qed

lemma distinct_argsort_desc: "distinct (argsort_desc r)"
proof (rule card_distinct)
  show "card (set (argsort_desc r)) = length (argsort_desc r)"
    by (simp add: set_argsort_desc length_argsort_desc)
qed

lemma sorted_insert_desc:
  "sorted_wrt (\<lambda>a b. fst b \<le> fst a) qs \<Longrightarrow> sorted_wrt (\<lambda>a b. fst b \<le> fst a) (insert_desc p qs)"
  by (induction qs) (auto simp: set_insert_desc)

lemma sorted_foldr_insert_desc: "sorted_wrt (\<lambda>a b. fst b \<le> fst a) (foldr insert_desc ps [])"
  by (induction ps) (auto simp: sorted_insert_desc)

lemma argsort_desc_descending:
  assumes "i \<le> j" "j < length r"
  shows "r ! (argsort_desc r ! j) \<le> r ! (argsort_desc r ! i)"
proof -
  let ?s = "foldr insert_desc (zip r [0..<length r]) []"
  have len: "length ?s = length r" by (simp add: length_foldr_insert_desc)
  have mem: "\<And>n. n < length r \<Longrightarrow> fst (?s ! n) = r ! snd (?s ! n)"
  proof -
    fix n assume "n < length r"
    then have "?s ! n \<in> set ?s" using len by simp
    then have "?s ! n \<in> set (zip r [0..<length r])" by (simp add: set_foldr_insert_desc)
    then show "fst (?s ! n) = r ! snd (?s ! n)" by (auto simp: set_zip)
  qed
  have "fst (?s ! j) \<le> fst (?s ! i)"
  proof (cases "i = j")
    case True then show ?thesis by simp
  next
    case False
    then have "i < j" using assms by simp
    then show ?thesis
      using sorted_wrt_nth_less[OF sorted_foldr_insert_desc, of i j "zip r [0..<length r]"] assms len by simp
  qed
  then show ?thesis using assms mem[of i] mem[of j] len
    by (simp add: argsort_desc_def)
qed



lemma valid_topk_topk_indices: "valid_topk topk_indices"
  unfolding valid_topk_def
proof (intro allI impI conjI)
  fix k and r :: "real list" assume k: "k \<le> length r"
  let ?a = "argsort_desc r"
  show "length (topk_indices k r) = k"
    using k by (simp add: topk_indices_def length_argsort_desc)
  show "distinct (topk_indices k r)"
    by (simp add: topk_indices_def distinct_argsort_desc)
  show "set (topk_indices k r) \<subseteq> {..<length r}"
    using set_take_subset[of k ?a] by (auto simp: topk_indices_def set_argsort_desc)
  have "sorted_wrt (\<lambda>i j. r ! j \<le> r ! i) ?a"
    unfolding sorted_wrt_iff_nth_less
    by (auto simp: length_argsort_desc intro: argsort_desc_descending)
  then show "sorted_wrt (\<lambda>i j. r ! j \<le> r ! i) (topk_indices k r)"
    unfolding topk_indices_def by (rule sorted_wrt_take)
  fix i assume i: "i < length r" "i \<notin> set (topk_indices k r)"
  show "\<forall>j\<in>set (topk_indices k r). r ! i \<le> r ! j"
  proof
    fix j assume "j \<in> set (topk_indices k r)"
    then obtain q where q: "q < k" "q < length ?a" "j = ?a ! q"
      by (auto simp: topk_indices_def in_set_conv_nth)
    have "i \<in> set ?a" using i(1) by (simp add: set_argsort_desc)
    then obtain p where p: "p < length ?a" "i = ?a ! p" by (auto simp: in_set_conv_nth)
    have "\<not> p < k"
    proof
      assume "p < k"
      then have "?a ! p \<in> set (take k ?a)" using p(1) by (auto simp: in_set_conv_nth)
      then show False using i(2) p(2) by (simp add: topk_indices_def)
    qed
    then have "q \<le> p" using q(1) by simp
    then show "r ! i \<le> r ! j"
      using argsort_desc_descending[of q p r] p q by (simp add: length_argsort_desc)
  qed
qed

lemma length_filter_disj:
  "\<forall>x\<in>set xs. \<not> (P x \<and> Q x) \<Longrightarrow>
   length (filter (\<lambda>x. P x \<or> Q x) xs) = length (filter P xs) + length (filter Q xs)"
  by (induction xs) auto

lemma count_true_append: "count_true (xs @ ys) = count_true xs + count_true ys"
  by (simp add: count_true_def)

lemma count_true_rank:
  "count_true (map2 (=) (map (\<lambda>p. p ! j) P) T) = length (filter (\<lambda>(p, t). p ! j = t) (zip P T))"
proof (induction P arbitrary: T)
  case Nil
  then show ?case by (simp add: count_true_def)
next
  case (Cons p P)
  then show ?case by (cases T) (auto simp: count_true_def)
qed

lemma nth_notin_take:
  assumes "distinct p" "k < length p"
  shows "p ! k \<notin> set (take k p)"
proof
  assume "p ! k \<in> set (take k p)"
  then obtain i where "i < k" "p ! i = p ! k"
    using assms by (auto simp: in_set_conv_nth)
  then show False using assms by (simp add: nth_eq_iff_index_eq)
qed

lemma count_correct:
  assumes "\<forall>p\<in>set P. distinct p \<and> k \<le> length p"
  shows "count_true (concat (map (\<lambda>j. map2 (=) (map (\<lambda>p. p ! j) P) T) [0..<k]))
         = length (filter (\<lambda>(p, t). t \<in> set (take k p)) (zip P T))"
  using assms
proof (induction k)
  case 0
  then show ?case by (simp add: count_true_def)
next
  case (Suc k)
  have IH: "count_true (concat (map (\<lambda>j. map2 (=) (map (\<lambda>p. p ! j) P) T) [0..<k]))
         = length (filter (\<lambda>(p, t). t \<in> set (take k p)) (zip P T))"
    using Suc.prems by (intro Suc.IH) (auto simp: Suc_le_eq less_imp_le)
  have mem: "\<And>p t. (p, t) \<in> set (zip P T) \<Longrightarrow> distinct p \<and> k < length p"
    using Suc.prems by (fastforce dest: set_zip_leftD simp: Suc_le_eq)
  have split: "filter (\<lambda>(p, t). t \<in> set (take (Suc k) p)) (zip P T)
             = filter (\<lambda>x. (case x of (p, t) \<Rightarrow> t \<in> set (take k p)) \<or> (case x of (p, t) \<Rightarrow> p ! k = t)) (zip P T)"
    by (rule filter_cong) (auto simp: take_Suc_conv_app_nth dest: mem)
  have disj: "\<forall>x\<in>set (zip P T). \<not> ((case x of (p, t) \<Rightarrow> t \<in> set (take k p)) \<and> (case x of (p, t) \<Rightarrow> p ! k = t))"
    using mem nth_notin_take by fastforce
  show ?case
    by (simp only: upt_Suc_append[OF le0] map_append concat_append count_true_append IH
          split length_filter_disj[OF disj] list.map concat.simps append_Nil2 count_true_rank)
qed

lemma py_slice_to_pos: "0 \<le> k \<Longrightarrow> py_slice_to k xs = take (nat k) xs"
  by (simp add: py_slice_to_def)

lemma take_map_upt: "k \<le> m \<Longrightarrow> take k (map f [0..<m]) = map f [0..<k]"
  by (simp add: take_map min_def)



lemma accuracy_formula:
  assumes tk: "\<forall>r\<in>set (rows output). distinct (tk (nat (Max (set topk))) r)
                 \<and> length (tk (nat (Max (set topk))) r) = nat (Max (set topk))"
    and len: "length target = length (rows output)"
    and ne: "target \<noteq> []" "topk \<noteq> []"
    and ks: "\<forall>k\<in>set topk. 0 < k \<and> k \<le> int (ncols output)"
  shows "accuracy tk output target topk =
           Inr (map (\<lambda>k. percentage (hits tk (nat (Max (set topk))) (nat k) (rows output) target)
                                     (length target)) topk)"
proof -
  define maxk where "maxk = Max (set topk)"
  have maxk_in: "maxk \<in> set topk" unfolding maxk_def using ne by simp
  have maxk_ok: "0 < maxk" "maxk \<le> int (ncols output)" using ks maxk_in by auto
  have k_le: "\<And>k. k \<in> set topk \<Longrightarrow> k \<le> maxk" unfolding maxk_def by simp
  define pred where "pred = map (tk (nat maxk)) (rows output)"
  have pred_ok: "\<And>k. k \<in> set topk \<Longrightarrow> \<forall>p\<in>set pred. distinct p \<and> nat k \<le> length p"
  proof
    fix k p assume "k \<in> set topk" "p \<in> set pred"
    then show "distinct p \<and> nat k \<le> length p"
      using nat_mono[OF k_le[of k]] tk by (auto simp: pred_def maxk_def)
  qed
  have each: "\<And>k. k \<in> set topk \<Longrightarrow>
      count_true (concat (py_slice_to k
        (map (\<lambda>row. map2 (=) row target) (map (\<lambda>j. map (\<lambda>p. p ! j) pred) [0..<nat maxk]))))
      = hits tk (nat maxk) (nat k) (rows output) target"
  proof -
    fix k assume k: "k \<in> set topk"
    have k0: "0 \<le> k" "nat k \<le> nat maxk" using ks k k_le[OF k] by auto
    have "count_true (concat (py_slice_to k
        (map (\<lambda>row. map2 (=) row target) (map (\<lambda>j. map (\<lambda>p. p ! j) pred) [0..<nat maxk]))))
      = count_true (concat (map (\<lambda>j. map2 (=) (map (\<lambda>p. p ! j) pred) target) [0..<nat k]))"
      by (simp add: py_slice_to_pos[OF k0(1)] take_map_upt[OF k0(2)] comp_def)
    also have "\<dots> = length (filter (\<lambda>(p, t). t \<in> set (take (nat k) p)) (zip pred target))"
      by (rule count_correct[OF pred_ok[OF k]])
    also have "\<dots> = hits tk (nat maxk) (nat k) (rows output) target"
      unfolding hits_def pred_def zip_map1 filter_map length_map comp_def
      by (simp add: case_prod_unfold)
    finally show "count_true (concat (py_slice_to k
        (map (\<lambda>row. map2 (=) row target) (map (\<lambda>j. map (\<lambda>p. p ! j) pred) [0..<nat maxk]))))
      = hits tk (nat maxk) (nat k) (rows output) target" .
  qed
  have "accuracy tk output target topk =
      Inr (map (\<lambda>k. percentage (count_true (concat (py_slice_to k
        (map (\<lambda>row. map2 (=) row target) (map (\<lambda>j. map (\<lambda>p. p ! j) pred) [0..<nat maxk])))))
           (length target)) topk)"
    using ne maxk_ok len[symmetric]
    by (auto simp: accuracy_def expand_target_def Let_def maxk_def[symmetric] pred_def[symmetric]
          percentage_def)
  also have "\<dots> = Inr (map (\<lambda>k. percentage (hits tk (nat maxk) (nat k) (rows output) target)
                                     (length target)) topk)"
    using each by simp
  finally show ?thesis by (simp only: maxk_def)
qed


lemma hits_le_length: "length target = length rs \<Longrightarrow> hits tk m k rs target \<le> length target"
  unfolding hits_def by (rule order_trans[OF length_filter_le]) simp

lemma length_filter_mono:
  "(\<And>x. x \<in> set xs \<Longrightarrow> P x \<Longrightarrow> Q x) \<Longrightarrow> length (filter P xs) \<le> length (filter Q xs)"
  by (induction xs) auto

lemma hits_mono: "k \<le> k' \<Longrightarrow> hits tk m k rs target \<le> hits tk m k' rs target"
  unfolding hits_def
  by (rule length_filter_mono) (use set_take_subset_set_take in fastforce)

lemma hits_all:
  assumes "length target = length rs"
    and "\<forall>(r, t)\<in>set (zip rs target). t \<in> set (take k (tk m r))"
  shows "hits tk m k rs target = length target"
proof -
  have "filter (\<lambda>(r, t). t \<in> set (take k (tk m r))) (zip rs target) = zip rs target"
    using assms(2) by (intro filter_True) auto
  then show ?thesis using assms(1) by (simp add: hits_def)
qed

lemma valid_topk_rows:
  assumes "valid_topk tk" "wf_tensor output" "m \<le> ncols output"
  shows "\<forall>r\<in>set (rows output). distinct (tk m r) \<and> length (tk m r) = m"
  using assms by (auto simp: valid_topk_def wf_tensor_def list_all_iff)

lemma topk_first:
  assumes v: "valid_topk tk" and m: "0 < m" "m \<le> length r"
    and t: "t < length r" "\<forall>j<length r. j \<noteq> t \<longrightarrow> r ! j < r ! t"
  shows "t \<in> set (take 1 (tk m r))"
proof -
  let ?a = "tk m r"
  have len: "length ?a = m" and sub: "set ?a \<subseteq> {..<length r}"
    and srt: "sorted_wrt (\<lambda>i j. r ! j \<le> r ! i) ?a"
    and out: "\<forall>i<length r. i \<notin> set ?a \<longrightarrow> (\<forall>j\<in>set ?a. r ! i \<le> r ! j)"
    using v m(2) by (auto simp: valid_topk_def)
  have a0: "?a ! 0 \<in> set ?a" using len m(1) by simp
  then have a0r: "?a ! 0 < length r" using sub by auto
  have "r ! t \<le> r ! (?a ! 0)"
  proof (cases "t \<in> set ?a")
    case True
    then obtain q where q: "q < length ?a" "?a ! q = t" by (auto simp: in_set_conv_nth)
    show ?thesis
    proof (cases "q = 0")
      case True
      then show ?thesis using q by simp
    next
      case False
      then have "0 < q" by simp
      then show ?thesis using sorted_wrt_nth_less[OF srt, of 0 q] q by simp
    qed
  next
    case False
    then show ?thesis using out t(1) a0 by blast
  qed
  then have "?a ! 0 = t" using t(2) a0r by (cases "?a ! 0 = t") auto
  then show ?thesis using len m(1) by (cases ?a) auto
qed

section \<open>Properties of \<^verbatim>\<open>accuracy\<close>\<close>

text \<open>
  Counterexamples to C4 as stated.  With one class and \<open>k = 2\<close> the library call
  \<^verbatim>\<open>topk\<close> raises, so no percentage is returned although the batch is non-empty and
  \<open>k\<close> is positive.  With one of three samples correct the result is the 32-bit number
  \<open>8738133 / 262144\<close> (33.33333206...), not \<open>100 \<times> 1 / 3\<close>.
\<close>

theorem accuracy_wrong_value:
  "accuracy topk_indices \<lparr>ncols = 1, rows = [[1 / 2]]\<rparr> [0] [2] = Inl RuntimeError
   \<and> accuracy topk_indices \<lparr>ncols = 2, rows = [[1, 0], [0, 1], [0, 1]]\<rparr> [0, 0, 0] [1]
       = Inr [Finite (8738133 / 262144)]
   \<and> (8738133 / 262144 :: real) \<noteq> 100 * 1 / 3"
  by (simp add: accuracy_def topk_indices_def argsort_desc_def expand_target_def py_slice_to_def
        count_true_def fl_eval)

text \<open>
  C4 (amended): for every batch of at least one and fewer than \<open>2\<^sup>2\<^sup>4\<close> samples (one label
  per row of a well-formed score tensor), every \<^verbatim>\<open>topk\<close> that keeps the library's
  promise and every non-empty sequence of positive \<open>k\<close> values, none above the number of
  classes, \<^const>\<open>accuracy\<close> returns for each \<open>k\<close> the 32-bit product of the number of
  hits with the 32-bit value of \<^verbatim>\<open>100.0 / batch_size\<close>, where a sample is a hit when its
  label is among the \<open>k\<close> first indices that \<^verbatim>\<open>topk\<close> returns for its scores.  This
  number differs from \<open>100 \<times> hits / batch size\<close> by at most the fraction \<open>2\<^sup>-\<^sup>2\<^sup>2\<close> of
  that value.  In particular, when the score of every label is strictly the highest of its
  row, each result for \<open>k = 1\<close> is within \<open>2\<^sup>-\<^sup>1\<^sup>7\<close> of 100.
\<close>

theorem accuracy_topk_percentage:
  assumes "valid_topk tk"
    and "wf_tensor output"
    and "length target = length (rows output)"
    and "target \<noteq> []"
    and "length target < 2 ^ 24"
    and "topk \<noteq> []"
    and "\<forall>k\<in>set topk. 0 < k \<and> k \<le> int (ncols output)"
  shows "accuracy tk output target topk =
           Inr (map (\<lambda>k. Finite (pct (hits tk (nat (Max (set topk))) (nat k) (rows output) target)
                                     (length target))) topk)
         \<and> (\<forall>k\<in>set topk.
               \<bar>pct (hits tk (nat (Max (set topk))) (nat k) (rows output) target) (length target)
                 - 100 * real (hits tk (nat (Max (set topk))) (nat k) (rows output) target)
                   / real (length target)\<bar>
               \<le> 100 * real (hits tk (nat (Max (set topk))) (nat k) (rows output) target)
                   / real (length target) / 2 ^ 22)
         \<and> ((\<forall>(r, t)\<in>set (zip (rows output) target).
                 t < length r \<and> (\<forall>j<length r. j \<noteq> t \<longrightarrow> r ! j < r ! t))
              \<longrightarrow> (\<forall>i<length topk. topk ! i = 1 \<longrightarrow>
                     (\<exists>a. map (\<lambda>k. Finite (pct (hits tk (nat (Max (set topk))) (nat k) (rows output) target)
                                     (length target))) topk ! i = Finite a
                          \<and> \<bar>a - 100\<bar> \<le> 1 / 2 ^ 17)))"
proof (intro conjI impI ballI allI)
  let ?m = "nat (Max (set topk))"
  have maxk_in: "Max (set topk) \<in> set topk" using assms(6) by simp
  then have mk: "?m \<le> ncols output" using assms(7) by auto
  have n: "0 < length target" using assms(4) by simp
  have h: "hits tk ?m k (rows output) target \<le> length target" for k
    using assms(3) by (rule hits_le_length)
  have "accuracy tk output target topk =
           Inr (map (\<lambda>k. percentage (hits tk ?m (nat k) (rows output) target) (length target)) topk)"
    using valid_topk_rows[OF assms(1,2) mk] assms(3,4,6,7)
    by (intro accuracy_formula) simp_all
  then show "accuracy tk output target topk =
           Inr (map (\<lambda>k. Finite (pct (hits tk ?m (nat k) (rows output) target)
                                     (length target))) topk)"
    by (simp only: percentage_Finite[OF n assms(5) h])
next
  fix k assume "k \<in> set topk"
  have n: "0 < length target" using assms(4) by simp
  show "\<bar>pct (hits tk (nat (Max (set topk))) (nat k) (rows output) target) (length target)
                 - 100 * real (hits tk (nat (Max (set topk))) (nat k) (rows output) target)
                   / real (length target)\<bar>
               \<le> 100 * real (hits tk (nat (Max (set topk))) (nat k) (rows output) target)
                   / real (length target) / 2 ^ 22"
    using n assms(5) by (rule pct_relative)
next
  fix i
  assume top: "\<forall>(r, t)\<in>set (zip (rows output) target).
                 t < length r \<and> (\<forall>j<length r. j \<noteq> t \<longrightarrow> r ! j < r ! t)"
    and i: "i < length topk" "topk ! i = 1"
  define maxk where "maxk = nat (Max (set topk))"
  have maxk_in: "Max (set topk) \<in> set topk" using assms(6) by simp
  then have mk: "0 < maxk" "maxk \<le> ncols output" using assms(7) by (auto simp: maxk_def)
  have n: "0 < length target" using assms(4) by simp
  have rl: "\<And>r. r \<in> set (rows output) \<Longrightarrow> length r = ncols output"
    using assms(2) by (simp add: wf_tensor_def list_all_iff)
  have "\<forall>(r, t)\<in>set (zip (rows output) target). t \<in> set (take 1 (tk maxk r))"
  proof (clarify)
    fix r t assume rt: "(r, t) \<in> set (zip (rows output) target)"
    then have "length r = ncols output" using rl by (auto dest: set_zip_leftD)
    then show "t \<in> set (take 1 (tk maxk r))"
      using top rt mk by (intro topk_first[OF assms(1)]) auto
  qed
  then have "hits tk maxk 1 (rows output) target = length target"
    using assms(3) by (intro hits_all) auto
  then have "map (\<lambda>k. Finite (pct (hits tk (nat (Max (set topk))) (nat k) (rows output) target)
                                     (length target))) topk ! i
             = Finite (pct (length target) (length target))"
    using i by (simp add: maxk_def)
  moreover have "\<bar>pct (length target) (length target) - 100\<bar> \<le> 1 / 2 ^ 17"
    using pct_full[OF n assms(5)] pct_le[OF n assms(5) order_refl]
    by (intro abs_leI) simp_all
  ultimately show "\<exists>a. map (\<lambda>k. Finite (pct (hits tk (nat (Max (set topk))) (nat k) (rows output) target)
                                     (length target))) topk ! i = Finite a
                          \<and> \<bar>a - 100\<bar> \<le> 1 / 2 ^ 17"
    by blast
qed


text \<open>
  C5: \<^const>\<open>accuracy\<close> fails whenever some requested \<open>k\<close> exceeds the number of
  classes, or the batch size is 0.  The source has no exception class of its own: the
  failure is the \<^verbatim>\<open>RuntimeError\<close> of \<^verbatim>\<open>topk\<close>, the
  \<^verbatim>\<open>ZeroDivisionError\<close> of \<^verbatim>\<open>100.0 / batch_size\<close>, or the
  \<^verbatim>\<open>ValueError\<close> of \<^verbatim>\<open>max\<close> on an empty \<^verbatim>\<open>topk\<close>.
\<close>

theorem accuracy_invalid_input:
  assumes "(\<exists>k\<in>set topk. int (ncols output) < k) \<or> target = []"
  shows "isl (accuracy tk output target topk)"
proof (cases "topk = []")
  case True
  then show ?thesis by (simp add: accuracy_def)
next
  case False
  show ?thesis
  proof (cases "int (ncols output) < Max (set topk)")
    case True
    then show ?thesis using False by (simp add: accuracy_def Let_def)
  next
    case nb: False
    have "\<not> (\<exists>k\<in>set topk. int (ncols output) < k)"
    proof
      assume "\<exists>k\<in>set topk. int (ncols output) < k"
      then obtain k where "k \<in> set topk" "int (ncols output) < k" by blast
      moreover have "k \<le> Max (set topk)" using \<open>k \<in> set topk\<close> by simp
      ultimately show False using nb by linarith
    qed
    then have "target = []" using assms by blast
    then show ?thesis
      by (simp add: accuracy_def Let_def expand_target_def split: sum.splits)
  qed
qed

text \<open>
  C8 (amended): for every batch of fewer than \<open>2\<^sup>2\<^sup>4\<close> samples, every \<^verbatim>\<open>topk\<close> that
  keeps the library's promise and the \<open>k\<close> values 1 and 5, every result that
  \<^const>\<open>accuracy\<close> returns is a finite number between 0 and \<open>100 + 2\<^sup>-\<^sup>1\<^sup>7\<close>, and the
  top-5 result is at least the top-1 result.
\<close>

theorem accuracy_top1_top5_bounds:
  assumes "valid_topk tk"
    and "wf_tensor output"
    and "length target = length (rows output)"
    and "length target < 2 ^ 24"
    and "accuracy tk output target [1, 5] = Inr res"
  shows "\<exists>top1 top5. res = [Finite top1, Finite top5]
            \<and> 0 \<le> top1 \<and> top1 \<le> top5 \<and> top5 \<le> 100 + 1 / 2 ^ 17"
proof -
  have ne: "target \<noteq> []" and nc: "5 \<le> ncols output"
    using assms(5) by (auto simp: accuracy_def Let_def split: if_splits sum.splits)
  have n: "0 < length target" using ne by simp
  have mx: "nat (Max (set [1, 5::int])) = 5" by simp
  have tk: "\<forall>r\<in>set (rows output). distinct (tk (nat (Max (set [1, 5::int]))) r)
              \<and> length (tk (nat (Max (set [1, 5::int]))) r) = nat (Max (set [1, 5::int]))"
    unfolding mx using assms(1,2) nc by (rule valid_topk_rows)
  have ks: "\<forall>k\<in>set [1, 5::int]. 0 < k \<and> k \<le> int (ncols output)"
    using nc by simp
  let ?h1 = "hits tk 5 1 (rows output) target"
  let ?h5 = "hits tk 5 5 (rows output) target"
  have "accuracy tk output target [1, 5] =
        Inr (map (\<lambda>k. percentage (hits tk (nat (Max (set [1, 5::int]))) (nat k) (rows output) target)
                      (length target)) [1, 5])"
    using tk assms(3) ne _ ks by (rule accuracy_formula) simp
  then have r0: "res = [percentage ?h1 (length target), percentage ?h5 (length target)]"
    using assms(5) by simp
  have m: "?h1 \<le> ?h5" by (rule hits_mono) simp
  have u: "?h5 \<le> length target" using assms(3) by (rule hits_le_length)
  have u1: "?h1 \<le> length target" using assms(3) by (rule hits_le_length)
  have res: "res = [Finite (pct ?h1 (length target)), Finite (pct ?h5 (length target))]"
    using r0 by (simp only: percentage_Finite[OF n assms(4) u] percentage_Finite[OF n assms(4) u1])
  moreover have "0 \<le> pct ?h1 (length target)" by (rule pct_nonneg)
  moreover have "pct ?h1 (length target) \<le> pct ?h5 (length target)" using m by (rule pct_mono)
  moreover have "pct ?h5 (length target) \<le> 100 + 1 / 2 ^ 17" using n assms(4) u by (rule pct_le)
  ultimately show ?thesis by blast
qed

text \<open>
  Counterexample to C8 as stated: for 45 samples that are all correct, both results are
  \<open>100 + 2\<^sup>-\<^sup>1\<^sup>7\<close> (100.00000762939453), above 100: the 32-bit value of
  \<^verbatim>\<open>100.0 / 45\<close> is larger than \<open>100 / 45\<close>, and its product with 45 rounds upwards.
\<close>

theorem accuracy_above_100:
  "accuracy topk_indices \<lparr>ncols = 5, rows = replicate 45 [5, 4, 3, 2, 1]\<rparr> (replicate 45 0) [1, 5]
     = Inr [Finite (100 + 1 / 131072), Finite (100 + 1 / 131072)]
   \<and> \<not> (100 + 1 / 131072 :: real) \<le> 100"
proof -
  let ?t = "\<lparr>ncols = 5, rows = replicate 45 [5, 4, 3, 2, 1]\<rparr>"
  let ?y = "replicate 45 (0::nat)"
  have mx: "nat (Max (set [1, 5::int])) = 5" by simp
  have r: "topk_indices 5 [5, 4, 3, 2, 1] = [0, 1, 2, 3, 4]"
    by (simp add: topk_indices_def argsort_desc_def upt_rec)
  have tk: "\<forall>r\<in>set (rows ?t). distinct (topk_indices (nat (Max (set [1, 5::int]))) r)
              \<and> length (topk_indices (nat (Max (set [1, 5::int]))) r) = nat (Max (set [1, 5::int]))"
    unfolding mx by (simp add: r)
  have f: "accuracy topk_indices ?t ?y [1, 5] =
        Inr (map (\<lambda>k. percentage (hits topk_indices (nat (Max (set [1, 5::int]))) (nat k) (rows ?t) ?y)
                      (length ?y)) [1, 5])"
    using tk by (rule accuracy_formula) simp_all
  have h: "hits topk_indices 5 k (replicate 45 [5, 4, 3, 2, 1]) ?y = 45" if "0 < k" for k
  proof -
    have "\<forall>(r, t)\<in>set (zip (replicate 45 [5, 4, 3, 2, 1]) ?y). t \<in> set (take k (topk_indices 5 r))"
      using that by (cases k) (auto simp: r dest!: set_zip_leftD set_zip_rightD)
    then have "hits topk_indices 5 k (replicate 45 [5, 4, 3, 2, 1]) ?y = length ?y"
      by (intro hits_all) simp_all
    then show ?thesis by simp
  qed
  have p: "percentage 45 45 = Finite (100 + 1 / 131072)"
    by (simp add: percentage_def fl_eval)
  show ?thesis using f h[of "Suc 0"] h[of 5] p by simp
qed


theorem accuracy_topk_percentage_witness:
  "valid_topk topk_indices
   \<and> accuracy topk_indices \<lparr>ncols = 2, rows = [[1, 0], [0, 1], [0, 1]]\<rparr> [0, 0, 0] [1, 2]
       = Inr [Finite (pct 1 3), Finite (pct 3 3)]
   \<and> \<bar>pct 1 3 - 100 * 1 / 3\<bar> \<le> 100 * 1 / 3 / 2 ^ 22
   \<and> (\<exists>a. accuracy topk_indices \<lparr>ncols = 2, rows = [[1, 0], [0, 1]]\<rparr> [0, 1] [1] = Inr [Finite a]
          \<and> \<bar>a - 100\<bar> \<le> 1 / 2 ^ 17)"
proof -
  let ?t = "\<lparr>ncols = 2, rows = [[1, 0], [0, 1], [0, 1]]\<rparr>"
  let ?u = "\<lparr>ncols = 2, rows = [[1, 0], [0, 1]]\<rparr>"
  note v = valid_topk_topk_indices
  have h: "hits topk_indices 2 (Suc 0) [[1, 0], [0, 1], [0, 1]] [0, 0, 0] = 1"
          "hits topk_indices 2 2 [[1, 0], [0, 1], [0, 1]] [0, 0, 0] = 3"
          "hits topk_indices (Suc 0) (Suc 0) [[1, 0], [0, 1]] [0, Suc 0] = 2"
    by (simp_all add: hits_def topk_indices_def argsort_desc_def)
  have n3: "Suc (Suc (Suc 0)) = 3" by simp
  have top: "\<forall>(r, t)\<in>set (zip (rows ?u) [0, 1::nat]).
                 t < length r \<and> (\<forall>j<length r. j \<noteq> t \<longrightarrow> r ! j < r ! t)"
    by (auto simp: less_Suc_eq)
  have a: "accuracy topk_indices ?t [0, 0, 0] [1, 2] = Inr [Finite (pct 1 3), Finite (pct 3 3)]"
    and b: "\<bar>pct 1 3 - 100 * 1 / 3\<bar> \<le> 100 * 1 / 3 / 2 ^ 22"
    using accuracy_topk_percentage[OF v, of ?t "[0, 0, 0]" "[1, 2]"]
    by (simp_all add: wf_tensor_def h n3)
  have c: "\<exists>a. accuracy topk_indices ?u [0, 1] [1] = Inr [Finite a] \<and> \<bar>a - 100\<bar> \<le> 1 / 2 ^ 17"
    using accuracy_topk_percentage[OF v, of ?u "[0, 1]" "[1]"] top
    by (simp add: wf_tensor_def h)
  show ?thesis using v a b c by blast
qed

theorem accuracy_invalid_input_witness:
  "isl (accuracy topk_indices \<lparr>ncols = 3, rows = [[1/10, 7/10, 2/10]]\<rparr> [1] [1, 5])
   \<and> isl (accuracy topk_indices \<lparr>ncols = 3, rows = []\<rparr> [] [1])"
  using accuracy_invalid_input[of "[1, 5]" "\<lparr>ncols = 3, rows = [[1/10, 7/10, 2/10]]\<rparr>" "[1]" topk_indices]
        accuracy_invalid_input[of "[1]" "\<lparr>ncols = 3, rows = []\<rparr>" "[]" topk_indices]
  by simp

theorem accuracy_top1_top5_bounds_witness:
  "accuracy topk_indices \<lparr>ncols = 5, rows = [[1, 2, 3, 4, 5], [5, 4, 3, 2, 1]]\<rparr> [4, 1] [1, 5]
     = Inr [Finite 50, Finite 100]
   \<and> (\<exists>top1 top5. [Finite 50, Finite 100] = [Finite top1, Finite top5]
          \<and> 0 \<le> top1 \<and> top1 \<le> top5 \<and> top5 \<le> 100 + 1 / 2 ^ 17)"
proof -
  let ?t = "\<lparr>ncols = 5, rows = [[1, 2, 3, 4, 5], [5, 4, 3, 2, 1]]\<rparr>"
  have wf: "wf_tensor ?t" by (simp add: wf_tensor_def)
  have a: "accuracy topk_indices ?t [4, 1] [1, 5] = Inr [Finite 50, Finite 100]"
    by (simp add: accuracy_def topk_indices_def argsort_desc_def expand_target_def
          py_slice_to_def count_true_def upt_rec fl_eval)
  show ?thesis
    using a accuracy_top1_top5_bounds[OF valid_topk_topk_indices wf _ _ a] by simp
qed

section \<open>Properties of \<^verbatim>\<open>pass_epoch\<close> and \<^verbatim>\<open>train\<close>\<close>

lemmas demo_simps = demo_def pass_epoch_def batch_step_def accuracy_def topk_indices_def
  argsort_desc_def expand_target_def py_slice_to_def count_true_def optimizer_step_def
  scaler_step_def scaler_update_def enumerate_eq_zip upt_rec fl_eval

text \<open>
  C3, at a batch whose gradient is not finite: the scaler skips its own optimizer step and
  halves the scale factor, but \<^verbatim>\<open>pass_epoch\<close> then calls
  \<^verbatim>\<open>model_optimizer.step()\<close> itself, with no condition, and the parameter changes
  from \<open>Some 1\<close> to \<open>None\<close>.
\<close>

theorem pass_epoch_nonfinite_gradient_updates:
  "pass_epoch demo ''Train'' s0 [((1, None), [0])] =
     Inr ((Finite 1, Finite 100, Finite 100),
          \<lparr>params = None, grads = None, training = True, opt_state = (),
             scale = 32768, growth_tracker = 0, printed = []\<rparr>)"
  by (simp add: s0_def demo_simps)

text \<open>
  Counterexample to C7 as stated: with the mode \<^verbatim>\<open>"Test"\<close> the pass does not fail; it
  prints the message and returns metrics.
\<close>

theorem pass_epoch_bad_mode_returns:
  "pass_epoch demo ''Test'' s0 [((1, Some 2), [0])] =
     Inr ((Finite 1, Finite 100, Finite 100), s0\<lparr>printed := [ErrorModelMode]\<rparr>)"
  by (simp add: s0_def demo_simps)

text \<open>
  C1, at three epochs with the validation losses 1.0, 1.2 and 1.3 (as 32-bit numbers):
  \<^verbatim>\<open>train\<close> writes a numbered checkpoint in every epoch, not only in the first, and
  the counter is 0 at the end, not 2.
\<close>

theorem train_three_epochs_checkpoints:
  "(case train demo 3 (Some 1) (Some 0) False (\<lambda>e. [((1, Some 0), [0])])
           (\<lambda>e. [(([1, 12/10, 13/10] ! e, Some 0), [0])]) of
      Inl e \<Rightarrow> False
    | Inr s \<Rightarrow> map fst (saved s) = [Latest, Numbered 1, Numbered 2, Numbered 3, Latest]
               \<and> stop s = 0
               \<and> map (\<lambda>(e, tm, vm). fst vm) (scalars s)
                   = [Finite 1, fround binary32 (12/10), fround binary32 (13/10)])"
  by (simp add: train_def train_epoch_def demo_simps)

text \<open>
  C2, at ten configured epochs with a validation loss that grows in every epoch:
  \<^verbatim>\<open>train\<close> runs all ten epochs, the counter stays 0 and the loop never stops early.
\<close>

theorem train_worsening_loss_no_early_stop:
  "(case train demo 10 (Some 1) (Some 0) False (\<lambda>e. [((1, Some 0), [0])])
           (\<lambda>e. [((real e + 1, Some 0), [0])]) of
      Inl e \<Rightarrow> False
    | Inr s \<Rightarrow> map (\<lambda>(e, tm, vm). fst vm) (scalars s)
                 = map Finite [1, 2, 3, 4, 5, 6, 7, 8, 9, 10]
               \<and> stop s = 0
               \<and> EarlyStopping \<notin> set (printed (run s)))"
  by (simp add: train_def train_epoch_def demo_simps)

text \<open>
  C6: on a loader that yields no batch, \<^verbatim>\<open>pass_epoch\<close> fails in every mode and from
  every state, and returns no metrics.  The source has no check of its own: the failure
  is the \<^verbatim>\<open>UnboundLocalError\<close> of reading \<^verbatim>\<open>i_batch\<close>, before any division.
\<close>

theorem pass_epoch_empty_loader: "pass_epoch ops mode s [] = Inl UnboundLocalError"
  by (simp add: pass_epoch_def enumerate_eq_zip)

lemma batch_step_Eval_state:
  "batch_step ops ''Eval'' s b = Inr (s', m) \<Longrightarrow> s' = s\<lparr>training := False\<rparr>"
  by (auto simp: batch_step_def Let_def split: sum.splits)

lemma batch_step_Eval_idem:
  "batch_step ops ''Eval'' (s\<lparr>training := False\<rparr>) b = batch_step ops ''Eval'' s b"
  by (simp add: batch_step_def Let_def)

lemma pass_loop_Eval_state:
  "pass_loop ops ''Eval'' bs s a = Inr (s', a') \<Longrightarrow> bs \<noteq> [] \<Longrightarrow> s' = s\<lparr>training := False\<rparr>"
proof (induction bs arbitrary: s a)
  case Nil
  then show ?case by simp
next
  case (Cons ib bs)
  obtain i b where ib: "ib = (i, b)" by (cases ib)
  from Cons.prems(1) obtain s1 l t1 t5 where
    st: "batch_step ops ''Eval'' s b = Inr (s1, l, t1, t5)"
    and rest: "pass_loop ops ''Eval'' bs s1
        \<lparr>loss = fp_add binary32 (loss a) l, acc_top1 = fp_add binary32 (acc_top1 a) t1,
         acc_top5 = fp_add binary32 (acc_top5 a) t5, i_batch = Some i\<rparr>
        = Inr (s', a')"
    by (auto simp: ib split: sum.splits)
  have s1: "s1 = s\<lparr>training := False\<rparr>" using st by (rule batch_step_Eval_state)
  show ?case
  proof (cases "bs = []")
    case True
    then show ?thesis using rest s1 by simp
  next
    case False
    then have "s' = s1\<lparr>training := False\<rparr>" using Cons.IH[OF rest] by simp
    then show ?thesis using s1 by simp
  qed
qed

lemma pass_loop_Eval_idem:
  "bs \<noteq> [] \<Longrightarrow> pass_loop ops ''Eval'' bs (s\<lparr>training := False\<rparr>) a = pass_loop ops ''Eval'' bs s a"
proof (cases bs)
  case Nil
  then show "bs \<noteq> [] \<Longrightarrow> ?thesis" by simp
next
  case (Cons ib rest)
  obtain i b where "ib = (i, b)" by (cases ib)
  then show ?thesis using Cons by (simp add: batch_step_Eval_idem)
qed

text \<open>
  C9: a pass in mode \<^verbatim>\<open>"Eval"\<close> changes neither the parameters, nor the stored
  gradients, nor the optimizer, nor the scaler, and a second pass from the state it leaves,
  over the same batches, returns the same metrics.
\<close>

theorem pass_epoch_Eval_repeatable:
  assumes "pass_epoch ops ''Eval'' s loader = Inr (m, s')"
  shows "params s' = params s \<and> grads s' = grads s \<and> opt_state s' = opt_state s
         \<and> scale s' = scale s \<and> growth_tracker s' = growth_tracker s
         \<and> pass_epoch ops ''Eval'' s' loader = Inr (m, s')"
proof -
  let ?a0 = "\<lparr>loss = Finite 0, acc_top1 = Finite 0, acc_top5 = Finite 0, i_batch = None\<rparr>"
  have ne: "loader \<noteq> []"
    using assms by (auto simp: pass_epoch_def enumerate_eq_zip)
  then have ne': "enumerate 0 loader \<noteq> []" by (simp add: enumerate_eq_zip)
  from assms obtain a where
    loop: "pass_loop ops ''Eval'' (enumerate 0 loader) s ?a0 = Inr (s', a)"
    by (auto simp: pass_epoch_def Let_def split: sum.splits option.splits)
  have s': "s' = s\<lparr>training := False\<rparr>"
    using loop ne' by (rule pass_loop_Eval_state)
  have "pass_loop ops ''Eval'' (enumerate 0 loader) s' ?a0
        = pass_loop ops ''Eval'' (enumerate 0 loader) s ?a0"
    unfolding s' using ne' by (rule pass_loop_Eval_idem)
  then have "pass_epoch ops ''Eval'' s' loader = pass_epoch ops ''Eval'' s loader"
    by (simp add: pass_epoch_def)
  then show ?thesis using assms s' by simp
qed


theorem pass_epoch_Eval_repeatable_witness:
  "pass_epoch demo ''Eval'' s0 [((1, Some 2), [0]), ((2, Some 2), [1])]
     = Inr ((Finite (3 / 2), Finite 50, Finite 100), s0)
   \<and> params s0 = Some 1
   \<and> pass_epoch demo ''Eval'' s0 [((1, Some 2), [0]), ((2, Some 2), [1])]
     = Inr ((Finite (3 / 2), Finite 50, Finite 100), s0)"
proof -
  have a: "pass_epoch demo ''Eval'' s0 [((1, Some 2), [0]), ((2, Some 2), [1])]
             = Inr ((Finite (3 / 2), Finite 50, Finite 100), s0)"
    by (simp add: s0_def demo_simps)
  show ?thesis using a pass_epoch_Eval_repeatable[OF a] by (simp add: s0_def)
qed

lemma train_epoch_saved:
  "train_epoch ops epochs trl vll epoch s = Inr (s', brk) \<Longrightarrow> \<exists>ys. saved s' = saved s @ ys"
  by (auto simp: train_epoch_def Let_def split: sum.splits prod.splits if_splits)

lemma train_epoch_failed:
  "train_epoch ops epochs trl vll epoch s = Inl (e, fs) \<Longrightarrow> fs = saved s"
  by (auto simp: train_epoch_def Let_def split: sum.splits prod.splits if_splits)

lemma train_loop_saved:
  "train_loop ops epochs trl vll es s = Inr s' \<Longrightarrow> \<exists>ys. saved s' = saved s @ ys"
proof (induction es arbitrary: s)
  case Nil
  then show ?case by simp
next
  case (Cons epoch es)
  from Cons.prems obtain s1 brk where
    ep: "train_epoch ops epochs trl vll epoch s = Inr (s1, brk)"
    and rest: "if brk then s' = s1 else train_loop ops epochs trl vll es s1 = Inr s'"
    by (auto split: sum.splits if_splits)
  from train_epoch_saved[OF ep] obtain ys where ys: "saved s1 = saved s @ ys" by blast
  show ?case
  proof (cases brk)
    case True
    then show ?thesis using rest ys by simp
  next
    case False
    then have "train_loop ops epochs trl vll es s1 = Inr s'" using rest by simp
    from Cons.IH[OF this] obtain zs where "saved s' = saved s1 @ zs" by blast
    then show ?thesis using ys by simp
  qed
qed

lemma train_loop_failed:
  "train_loop ops epochs trl vll es s = Inl (e, fs) \<Longrightarrow> \<exists>ys. fs = saved s @ ys"
proof (induction es arbitrary: s)
  case Nil
  then show ?case by simp
next
  case (Cons epoch es)
  show ?case
  proof (cases "train_epoch ops epochs trl vll epoch s")
    case (Inl err)
    then have "fs = saved s" using Cons.prems train_epoch_failed[of ops epochs trl vll epoch s e fs]
      by simp
    then show ?thesis by simp
  next
    case (Inr r)
    obtain s1 brk where r: "r = (s1, brk)" by (cases r)
    from train_epoch_saved[of ops epochs trl vll epoch s s1 brk] Inr r
    obtain ys where ys: "saved s1 = saved s @ ys" by auto
    have "\<not> brk" "train_loop ops epochs trl vll es s1 = Inl (e, fs)"
      using Cons.prems Inr r by (auto split: if_splits)
    from Cons.IH[OF this(2)] obtain zs where "fs = saved s1 @ zs" by blast
    then show ?thesis using ys by simp
  qed
qed

text \<open>
  C10: every run of \<^verbatim>\<open>train\<close> writes \<^verbatim>\<open>checkpoint.pth.tar\<close> first, before the
  first epoch, and when the loop ends, by exhausting the epochs or by the break, the last
  file it writes is \<^verbatim>\<open>checkpoint.pth.tar\<close> again, with the final parameters.  A run
  that leaves with an exception has still written the first one.  The statement after
  it runs both ways out of the loop: three epochs to the end, and ten configured epochs
  with a validation loss that is NaN, where the loop breaks in the sixth.
\<close>

theorem train_latest_checkpoint:
  "(case train ops epochs model_params model_grads model_training train_loader val_loader of
      Inl (e, files) \<Rightarrow> files \<noteq> [] \<and> hd files = (Latest, model_params)
    | Inr s \<Rightarrow> 2 \<le> length (saved s) \<and> hd (saved s) = (Latest, model_params)
               \<and> last (saved s) = (Latest, params (run s)))"
proof -
  let ?s0 = "\<lparr>run = \<lparr>params = model_params, grads = model_grads, training = model_training,
                        opt_state = new_optimizer ops, scale = 65536, growth_tracker = 0,
                        printed = []\<rparr>,
                 sched = new_scheduler ops, stop = 0, min_val_loss = PInf,
                 saved = [(Latest, model_params)], scalars = []\<rparr>"
  show ?thesis
  proof (cases "train_loop ops epochs train_loader val_loader [0..<nat epochs] ?s0")
    case (Inl err)
    obtain e fs where err: "err = (e, fs)" by (cases err)
    from train_loop_failed[of ops epochs train_loader val_loader _ ?s0 e fs] Inl err
    obtain ys where "fs = [(Latest, model_params)] @ ys" by auto
    then show ?thesis using Inl err by (simp add: train_def)
  next
    case (Inr s)
    from train_loop_saved[OF Inr] obtain ys where "saved s = [(Latest, model_params)] @ ys"
      by auto
    then show ?thesis using Inr by (simp add: train_def)
  qed
qed




theorem train_latest_checkpoint_witness:
  "(case train demo 3 (Some 1) (Some 0) False (\<lambda>e. [((1, Some 0), [0])])
           (\<lambda>e. [(([1, 12/10, 13/10] ! e, Some 0), [0])]) of
      Inl (e, files) \<Rightarrow> False
    | Inr s \<Rightarrow> length (scalars s) = 3 \<and> EarlyStopping \<notin> set (printed (run s))
               \<and> 2 \<le> length (saved s) \<and> hd (saved s) = (Latest, Some 1)
               \<and> last (saved s) = (Latest, params (run s)))
   \<and> (case train demo 10 (Some 1) (Some 0) False (\<lambda>e. [((1, Some 0), [0])])
           (\<lambda>e. [((- 1, Some 0), [0])]) of
      Inl (e, files) \<Rightarrow> False
    | Inr s \<Rightarrow> length (scalars s) = 6 \<and> stop s = 6 \<and> last (printed (run s)) = EarlyStopping
               \<and> 2 \<le> length (saved s) \<and> hd (saved s) = (Latest, Some 1)
               \<and> last (saved s) = (Latest, params (run s)))"
proof -
  let ?a = "train demo 3 (Some 1) (Some 0) False (\<lambda>e. [((1, Some 0), [0])])
           (\<lambda>e. [(([1, 12/10, 13/10] ! e, Some 0), [0])])"
  let ?b = "train demo 10 (Some 1) (Some 0) False (\<lambda>e. [((1, Some 0), [0])])
           (\<lambda>e. [((- 1, Some 0), [0])])"
  have a: "(case ?a of Inl e \<Rightarrow> False
            | Inr s \<Rightarrow> length (scalars s) = 3 \<and> EarlyStopping \<notin> set (printed (run s)))"
    by (simp add: train_def train_epoch_def demo_simps)
  have b: "(case ?b of Inl e \<Rightarrow> False
            | Inr s \<Rightarrow> length (scalars s) = 6 \<and> stop s = 6
                       \<and> last (printed (run s)) = EarlyStopping)"
    by (simp add: train_def train_epoch_def demo_simps)
  show ?thesis
    using a b
      train_latest_checkpoint[where ops = demo and epochs = 3 and model_params = "Some 1"
           and model_grads = "Some 0" and model_training = False
           and train_loader = "\<lambda>e. [((1, Some 0), [0])]"
           and val_loader = "\<lambda>e. [(([1, 12/10, 13/10] ! e, Some 0), [0])]"]
      train_latest_checkpoint[where ops = demo and epochs = 10 and model_params = "Some 1"
           and model_grads = "Some 0" and model_training = False
           and train_loader = "\<lambda>e. [((1, Some 0), [0])]"
           and val_loader = "\<lambda>e. [((- 1, Some 0), [0])]"]
    by (auto split: sum.splits)
qed

lemma train_epoch_not_NaN:
  assumes "min_val_loss s = PInf"
    and "train_epoch ops epochs trl vll epoch s = Inr (s', brk)"
    and "pass_epoch ops ''Eval'' r1 (vll epoch) = Inr ((vl, v1, v5), r2)"
    and "pass_epoch ops ''Train''
           ((run s)\<lparr>printed := printed (run s) @ [EpochHeader (epoch + 1) epochs, Dashes]\<rparr>)
           (trl epoch) = Inr (tm, r1)"
    and "vl \<noteq> NaN"
  shows "\<not> brk \<and> stop s' = stop s \<and> min_val_loss s' = PInf
         \<and> map fst (saved s') = map fst (saved s) @ [Numbered (epoch + 1)]"
proof -
  have "fp_le vl PInf" using assms(5) by (cases vl) simp_all
  then show ?thesis
    using assms(1-4) by (auto simp: train_epoch_def Let_def split: prod.splits)
qed

lemma batch_step_Train_nonfinite:
  assumes "accuracy (tensor_topk ops) (forward ops True (params s) x) y [1, 5] = Inr tops"
    and "\<not> all_finite ops (unscale ops (scale s) (backward ops (scale s) (params s) x y (zero_grad ops (grads s))))"
  shows "batch_step ops ''Train'' s (x, y) =
     Inr (optimizer_step ops
            (s\<lparr>training := True,
               grads := unscale ops (scale s) (backward ops (scale s) (params s) x y (zero_grad ops (grads s))),
               scale := scale s * (1 / 2), growth_tracker := 0\<rparr>),
          loss_fn ops (forward ops True (params s) x) y, tops ! 0, tops ! 1)"
  using assms by (simp add: batch_step_def scaler_step_def scaler_update_def Let_def)

subsection \<open>Other modes\<close>

lemma batch_step_other:
  assumes "mode \<noteq> ''Train''" "mode \<noteq> ''Eval''"
    and "\<not> isl (accuracy (tensor_topk ops) (forward ops (training s) (params s) (fst b)) (snd b) [1, 5])"
  shows "batch_step ops mode s b =
     Inr (s\<lparr>printed := printed s @ [ErrorModelMode]\<rparr>,
          batch_loss ops (training s) (params s) b,
          batch_top ops (training s) (params s) 0 b,
          batch_top ops (training s) (params s) 1 b)"
  using assms
  by (auto simp: batch_step_def batch_loss_def batch_top_def Let_def split: sum.splits)

lemma pass_loop_other:
  assumes "mode \<noteq> ''Train''" "mode \<noteq> ''Eval''"
    and "\<forall>b\<in>set bs. \<not> isl (accuracy (tensor_topk ops)
                                (forward ops (training s) (params s) (fst b)) (snd b) [1, 5])"
  shows "pass_loop ops mode (enumerate n bs) s a =
     Inr (s\<lparr>printed := printed s @ replicate (length bs) ErrorModelMode\<rparr>,
          \<lparr>loss = foldl (fp_add binary32) (loss a)
                    (map (batch_loss ops (training s) (params s)) bs),
           acc_top1 = foldl (fp_add binary32) (acc_top1 a)
                    (map (batch_top ops (training s) (params s) 0) bs),
           acc_top5 = foldl (fp_add binary32) (acc_top5 a)
                    (map (batch_top ops (training s) (params s) 1) bs),
           i_batch = (if bs = [] then i_batch a else Some (n + length bs - 1))\<rparr>)"
  using assms(3)
proof (induction bs arbitrary: n s a)
  case Nil
  then show ?case by simp
next
  case (Cons b bs)
  let ?s1 = "s\<lparr>printed := printed s @ [ErrorModelMode]\<rparr>"
  have ok: "\<not> isl (accuracy (tensor_topk ops) (forward ops (training s) (params s) (fst b)) (snd b) [1, 5])"
    using Cons.prems by simp
  have rest: "\<forall>b\<in>set bs. \<not> isl (accuracy (tensor_topk ops)
                 (forward ops (training ?s1) (params ?s1) (fst b)) (snd b) [1, 5])"
    using Cons.prems by simp
  show ?case
    by (simp add: enumerate_simps batch_step_other[OF assms(1,2) ok] Cons.IH[OF rest]
          replicate_append_same)
qed

text \<open>
  C7 (amended): with a mode other than \<^verbatim>\<open>"Train"\<close> and \<^verbatim>\<open>"Eval"\<close>, on a loader
  that yields at least one batch and on which every call of \<^const>\<open>accuracy\<close>
  succeeds, \<^verbatim>\<open>pass_epoch\<close> does not fail: it prints \<^verbatim>\<open>error model mode!\<close> once for
  every batch, changes nothing else (mode flag, parameters, gradients, optimizer and
  scaler stay as they are) and returns the averages of the loss, the top-1 and the top-5
  accuracy of the batches, computed with the model in the mode it was left in; an
  average is the 32-bit sum from left to right divided by the number of batches.
\<close>

theorem pass_epoch_bad_mode_continues:
  assumes "mode \<noteq> ''Train''" "mode \<noteq> ''Eval''"
    and "loader \<noteq> []"
    and "\<forall>b\<in>set loader. \<not> isl (accuracy (tensor_topk ops)
                                    (forward ops (training s) (params s) (fst b)) (snd b) [1, 5])"
  shows "pass_epoch ops mode s loader =
           Inr ((mean32 (map (batch_loss ops (training s) (params s)) loader),
                 mean32 (map (batch_top ops (training s) (params s) 0) loader),
                 mean32 (map (batch_top ops (training s) (params s) 1) loader)),
                s\<lparr>printed := printed s @ replicate (length loader) ErrorModelMode\<rparr>)"
proof -
  have n: "Suc (length loader - 1) = length loader" using assms(3) by (cases loader) simp_all
  show ?thesis
    using assms(3)
    by (simp add: pass_epoch_def pass_loop_other[OF assms(1,2,4)] mean32_def n Let_def
          add.commute[of 1])
qed

theorem pass_epoch_bad_mode_continues_witness:
  "''Test'' \<noteq> ''Train'' \<and> ''Test'' \<noteq> ''Eval''
   \<and> pass_epoch demo ''Test'' s0 [((1, Some 2), [0]), ((2, Some 2), [1])]
       = Inr ((mean32 [Finite 1, Finite 2], mean32 [Finite 100, Finite 0],
               mean32 [Finite 100, Finite 100]),
              s0\<lparr>printed := [ErrorModelMode, ErrorModelMode]\<rparr>)
   \<and> mean32 [Finite 1, Finite 2] = Finite (3 / 2)
   \<and> mean32 [Finite 100, Finite 0] = Finite 50"
proof -
  let ?l = "[((1, Some 2), [0]), ((2::real, Some (2::real)), [1::nat])]"
  have h: "\<forall>b\<in>set ?l. \<not> isl (accuracy (tensor_topk demo)
                               (forward demo (training s0) (params s0) (fst b)) (snd b) [1, 5])"
    by (simp add: s0_def demo_simps)
  have v: "batch_loss demo False (Some 1) ((1, Some 2), [0]) = Finite 1"
          "batch_loss demo False (Some 1) ((2, Some 2), [Suc 0]) = Finite 2"
          "batch_top demo False (Some 1) 0 ((1, Some 2), [0]) = Finite 100"
          "batch_top demo False (Some 1) 0 ((2, Some 2), [Suc 0]) = Finite 0"
          "batch_top demo False (Some 1) (Suc 0) ((1, Some 2), [0]) = Finite 100"
          "batch_top demo False (Some 1) (Suc 0) ((2, Some 2), [Suc 0]) = Finite 100"
    by (simp_all add: batch_loss_def batch_top_def demo_simps)
  have m: "mean32 [Finite 1, Finite 2] = Finite (3 / 2)" "mean32 [Finite 100, Finite 0] = Finite 50"
    by (simp_all add: mean32_def fl_eval)
  show ?thesis
    using pass_epoch_bad_mode_continues[of "''Test''" ?l demo s0, OF _ _ _ h] m
    by (simp add: s0_def v)
qed

end
